theory Spec2Isabelle
  imports Main
begin

section \<open>The memory model\<close>

text \<open>
  The free store is a map from block addresses to blocks. A block obtained from
  \<^verbatim>\<open>operator new(n * sizeof(T))\<close> is a list of \<open>n\<close> slots; a slot is \<open>None\<close> while
  it is raw memory and \<open>Some x\<close> while a live \<open>T\<close> object of value \<open>x\<close> sits in it.
  Address \<open>0\<close> is \<^verbatim>\<open>nullptr\<close>. A pointer \<^verbatim>\<open>T*\<close> is a block address with a slot offset.
  \<open>operator new\<close> hands out fresh addresses and throws \<^verbatim>\<open>std::bad_alloc\<close> for a
  request above \<open>mem_limit\<close> slots.

  Requests are counted in slots: the byte count \<^verbatim>\<open>n * sizeof(T)\<close> is taken not to wrap
  around, as it does not for any \<open>n\<close> that the platform can serve. Values of \<^verbatim>\<open>size_t\<close>
  are natural numbers; the product \<^verbatim>\<open>size_ * 2\<close> that the growth of a vector computes is
  taken modulo \<open>2 ^ 64\<close>.
\<close>

type_synonym addr = nat
type_synonym ptr = "addr \<times> nat"
type_synonym 'a block = "'a option list"

record 'a heap =
  blocks :: "addr \<Rightarrow> 'a block option"
  next_addr :: addr
  mem_limit :: nat

datatype exn = bad_alloc | T_exception

text \<open>
  Every call ends in one of three ways: it returns (\<open>Ok\<close>, with the state after the call
  and the value returned), it leaves by an exception (\<open>Throw\<close>, with the state the
  exception leaves behind), or it has undefined behaviour (\<open>Fault\<close>: an access outside
  a block or to a slot holding no object, a failed \<^verbatim>\<open>assert\<close>, a double free).
\<close>

datatype ('s, 'r) outcome = Ok 's 'r | Throw exn 's | Fault

definition empty_heap :: "nat \<Rightarrow> 'a heap" where
  "empty_heap lim = \<lparr>blocks = (\<lambda>_. None), next_addr = 1, mem_limit = lim\<rparr>"

definition operator_new :: "'a heap \<Rightarrow> nat \<Rightarrow> ('a heap, addr) outcome" where
  "operator_new h n =
     (if mem_limit h < n then Throw bad_alloc h
      else Ok (h\<lparr>blocks := (blocks h)(next_addr h := Some (replicate n None)),
                 next_addr := Suc (next_addr h)\<rparr>) (next_addr h))"

text \<open>
  Calls that cannot throw return \<open>Some\<close> of the state after the call, or \<open>None\<close>
  when they have undefined behaviour. \<^verbatim>\<open>operator delete\<close> of a null pointer does nothing;
  of an address that holds no block it is a double or invalid free.
\<close>

definition operator_delete :: "'a heap \<Rightarrow> addr \<Rightarrow> 'a heap option" where
  "operator_delete h p =
     (if p = 0 then Some h
      else (case blocks h p of
              None \<Rightarrow> None
            | Some _ \<Rightarrow> Some (h\<lparr>blocks := (blocks h)(p := None)\<rparr>)))"

section \<open>RawMemory\<close>

record RawMemory =
  buffer_m :: addr
  capacity_m :: nat

text \<open>\<^verbatim>\<open>T* buffer_ = nullptr; size_t capacity_ = 0;\<close>\<close>

definition RawMemory_default :: RawMemory where
  "RawMemory_default = \<lparr>buffer_m = 0, capacity_m = 0\<rparr>"

definition Allocate :: "'a heap \<Rightarrow> nat \<Rightarrow> ('a heap, addr) outcome" where
  "Allocate h n = (if n \<noteq> 0 then operator_new h n else Ok h 0)"

definition Deallocate :: "'a heap \<Rightarrow> addr \<Rightarrow> 'a heap option" where
  "Deallocate h buf = operator_delete h buf"

text \<open>\<^verbatim>\<open>explicit RawMemory(size_t capacity)\<close>\<close>

definition RawMemory_ctor :: "'a heap \<Rightarrow> nat \<Rightarrow> ('a heap, RawMemory) outcome" where
  "RawMemory_ctor h capacity =
     (case Allocate h capacity of
        Ok h' p \<Rightarrow> Ok h' \<lparr>buffer_m = p, capacity_m = capacity\<rparr>
      | Throw e h' \<Rightarrow> Throw e h'
      | Fault \<Rightarrow> Fault)"

text \<open>\<^verbatim>\<open>~RawMemory()\<close>\<close>

definition RawMemory_dtor :: "'a heap \<Rightarrow> RawMemory \<Rightarrow> 'a heap option" where
  "RawMemory_dtor h this = Deallocate h (buffer_m this)"

text \<open>
  \<^verbatim>\<open>RawMemory(RawMemory&& other)\<close>: the block that \<open>Allocate\<close> returns is dropped, then
  the default-initialised members are swapped with those of \<open>other\<close>. The result is the
  new object and what is left in \<open>other\<close>. The constructor is \<^verbatim>\<open>noexcept\<close>: the
  \<open>Throw\<close> of \<open>Allocate\<close> is the call of \<^verbatim>\<open>std::terminate\<close>.
\<close>

definition RawMemory_move_ctor ::
  "'a heap \<Rightarrow> RawMemory \<Rightarrow> ('a heap, RawMemory \<times> RawMemory) outcome" where
  "RawMemory_move_ctor h other =
     (case Allocate h (capacity_m other) of
        Ok h' _ \<Rightarrow>
          Ok h' (\<lparr>buffer_m = buffer_m other, capacity_m = capacity_m other\<rparr>,
                 \<lparr>buffer_m = buffer_m RawMemory_default,
                  capacity_m = capacity_m RawMemory_default\<rparr>)
      | Throw e h' \<Rightarrow> Throw e h'
      | Fault \<Rightarrow> Fault)"

text \<open>
  \<^verbatim>\<open>RawMemory& operator=(RawMemory&& rhs)\<close> compares the addresses of the two objects,
  so it is modelled on a store of \<open>RawMemory\<close> objects. \<^verbatim>\<open>std::move\<close> of a pointer or
  of a \<^verbatim>\<open>size_t\<close> is a plain read: nothing is written to \<open>rhs\<close>.
\<close>

type_synonym ref = nat

definition RawMemory_move_assign ::
  "(ref \<Rightarrow> RawMemory) \<Rightarrow> ref \<Rightarrow> ref \<Rightarrow> (ref \<Rightarrow> RawMemory)" where
  "RawMemory_move_assign st this rhs =
     (if this \<noteq> rhs then
        (let st1 = st(this := (st this)\<lparr>buffer_m := buffer_m (st rhs)\<rparr>);
             st2 = st1(this := (st1 this)\<lparr>capacity_m := capacity_m (st1 rhs)\<rparr>)
         in st2)
      else st)"

text \<open>\<^verbatim>\<open>T* operator+(size_t offset)\<close>, with its \<^verbatim>\<open>assert(offset <= capacity_)\<close>.\<close>

definition RawMemory_plus :: "RawMemory \<Rightarrow> nat \<Rightarrow> ptr option" where
  "RawMemory_plus this offset =
     (if offset \<le> capacity_m this then Some (buffer_m this, offset) else None)"

text \<open>\<^verbatim>\<open>T& operator[](size_t index)\<close>, with its \<^verbatim>\<open>assert(index < capacity_)\<close>.\<close>

definition RawMemory_index :: "RawMemory \<Rightarrow> nat \<Rightarrow> ptr option" where
  "RawMemory_index this index =
     (if index < capacity_m this then Some (buffer_m this, index) else None)"

text \<open>\<^verbatim>\<open>void Swap(RawMemory& other)\<close>: the members of \<open>this\<close> and of \<open>other\<close> afterwards.\<close>

definition RawMemory_Swap :: "RawMemory \<Rightarrow> RawMemory \<Rightarrow> RawMemory \<times> RawMemory" where
  "RawMemory_Swap this other =
     (\<lparr>buffer_m = buffer_m other, capacity_m = capacity_m other\<rparr>,
      \<lparr>buffer_m = buffer_m this, capacity_m = capacity_m this\<rparr>)"

definition GetAddress :: "RawMemory \<Rightarrow> ptr" where
  "GetAddress this = (buffer_m this, 0)"

definition RawMemory_Capacity :: "RawMemory \<Rightarrow> nat" where
  "RawMemory_Capacity this = capacity_m this"

text \<open>
  The scenario \<^verbatim>\<open>RawMemory<T> a; RawMemory<T> b(2); a = std::move(b); \<close> followed by
  the two destructors: the heap after \<open>b\<close>'s constructor, the two objects at references
  \<open>0\<close> (for \<open>a\<close>) and \<open>1\<close> (for \<open>b\<close>).
\<close>

definition two_raw :: "(ref \<Rightarrow> RawMemory)" where
  "two_raw = (\<lambda>_. RawMemory_default)(1 := \<lparr>buffer_m = 1, capacity_m = 2\<rparr>)"

definition heap_two_raw :: "nat heap" where
  "heap_two_raw = \<lparr>blocks = (\<lambda>_. None)(1 := Some [None, None]), next_addr = 2, mem_limit = 8\<rparr>"

section \<open>The element type\<close>

text \<open>
  \<open>Vector<T>\<close> is a template; what it needs to know of \<open>T\<close> is collected here. The first
  two traits are those read by the \<^verbatim>\<open>if constexpr\<close> of the source; the destructor of a
  trivially destructible \<open>T\<close> is no code at all. Values have value
  semantics: a copy or a move builds an object equal to its source, and a move leaves
  \<open>moved_from x\<close> in the source. Which calls throw is a parameter: \<open>T()\<close> yields
  \<open>default_ctor\<close> (\<open>None\<close> when it throws), the copy and move constructors and the
  two assignments throw on the source values their predicate selects. A move
  constructor declared \<^verbatim>\<open>noexcept\<close> never throws. An assignment that throws leaves
  its target as it was.
\<close>

record 'a elem_type =
  is_nothrow_move_constructible :: bool
  is_copy_constructible :: bool
  is_trivially_destructible :: bool
  default_ctor :: "'a option"
  copy_throws :: "'a \<Rightarrow> bool"
  move_throws :: "'a \<Rightarrow> bool"
  copy_assign_throws :: "'a \<Rightarrow> bool"
  move_assign_throws :: "'a \<Rightarrow> bool"
  moved_from :: "'a \<Rightarrow> 'a"

text \<open>What the constructor call \<^verbatim>\<open>T(value)\<close> yields for an lvalue and for an rvalue.\<close>

definition copy_ctor :: "'a elem_type \<Rightarrow> 'a \<Rightarrow> 'a option" where
  "copy_ctor T x = (if copy_throws T x then None else Some x)"

definition move_ctor :: "'a elem_type \<Rightarrow> 'a \<Rightarrow> 'a option" where
  "move_ctor T x =
     (if move_throws T x \<and> \<not> is_nothrow_move_constructible T then None else Some x)"

section \<open>Objects in raw memory\<close>

text \<open>
  A pointer designates a slot when it is not based on \<^verbatim>\<open>nullptr\<close> and lies inside an
  allocated block.
\<close>

fun valid :: "'a heap \<Rightarrow> ptr \<Rightarrow> bool" where
  "valid h (a, i) =
     (a \<noteq> 0 \<and> (case blocks h a of None \<Rightarrow> False | Some b \<Rightarrow> i < length b))"

text \<open>The value of the live object at a pointer; \<open>None\<close> when there is none.\<close>

fun load :: "'a heap \<Rightarrow> ptr \<Rightarrow> 'a option" where
  "load h (a, i) =
     (if a = 0 then None
      else (case blocks h a of None \<Rightarrow> None | Some b \<Rightarrow> if i < length b then b ! i else None))"

fun store :: "'a heap \<Rightarrow> ptr \<Rightarrow> 'a option \<Rightarrow> 'a heap" where
  "store h (a, i) v =
     (case blocks h a of
        None \<Rightarrow> h
      | Some b \<Rightarrow> h\<lparr>blocks := (blocks h)(a := Some (b[i := v]))\<rparr>)"

fun ptr_add :: "ptr \<Rightarrow> nat \<Rightarrow> ptr" where
  "ptr_add (a, i) n = (a, i + n)"

text \<open>\<^verbatim>\<open>p - n\<close>: \<open>None\<close> is a pointer that lies before the block \<open>p\<close> points into.\<close>

fun ptr_sub :: "ptr \<Rightarrow> nat \<Rightarrow> ptr option" where
  "ptr_sub (a, i) n = (if n \<le> i then Some (a, i - n) else None)"

text \<open>\<^verbatim>\<open>new (p) T(args...)\<close>: \<open>arg\<close> is what the constructor call yields.\<close>

definition construct_at :: "'a heap \<Rightarrow> ptr \<Rightarrow> 'a option \<Rightarrow> ('a heap, unit) outcome" where
  "construct_at h p arg =
     (if valid h p then
        (case arg of None \<Rightarrow> Throw T_exception h | Some x \<Rightarrow> Ok (store h p (Some x)) ())
      else Fault)"

text \<open>\<^verbatim>\<open>p->~T()\<close>\<close>

definition destroy_at :: "'a heap \<Rightarrow> ptr \<Rightarrow> 'a heap option" where
  "destroy_at h p = (case load h p of None \<Rightarrow> None | Some _ \<Rightarrow> Some (store h p None))"

text \<open>\<^verbatim>\<open>new (p) T(*q)\<close>\<close>

definition copy_construct :: "'a elem_type \<Rightarrow> 'a heap \<Rightarrow> ptr \<Rightarrow> ptr \<Rightarrow> ('a heap, unit) outcome" where
  "copy_construct T h p q =
     (case load h q of None \<Rightarrow> Fault | Some x \<Rightarrow> construct_at h p (copy_ctor T x))"

text \<open>\<^verbatim>\<open>new (p) T(std::move(*q))\<close>\<close>

definition move_construct :: "'a elem_type \<Rightarrow> 'a heap \<Rightarrow> ptr \<Rightarrow> ptr \<Rightarrow> ('a heap, unit) outcome" where
  "move_construct T h p q =
     (case load h q of
        None \<Rightarrow> Fault
      | Some x \<Rightarrow>
          (case construct_at h p (move_ctor T x) of
             Ok h' _ \<Rightarrow> Ok (store h' q (Some (moved_from T x))) ()
           | Throw e h' \<Rightarrow> Throw e h'
           | Fault \<Rightarrow> Fault))"

text \<open>\<^verbatim>\<open>*p = x\<close> for a value \<open>x\<close> held in a local variable, moved from.\<close>

definition move_assign_value :: "'a elem_type \<Rightarrow> 'a heap \<Rightarrow> ptr \<Rightarrow> 'a \<Rightarrow> ('a heap, unit) outcome" where
  "move_assign_value T h p x =
     (case load h p of
        None \<Rightarrow> Fault
      | Some _ \<Rightarrow> if move_assign_throws T x then Throw T_exception h
                  else Ok (store h p (Some x)) ())"

text \<open>\<^verbatim>\<open>*p = *q\<close>\<close>

definition copy_assign :: "'a elem_type \<Rightarrow> 'a heap \<Rightarrow> ptr \<Rightarrow> ptr \<Rightarrow> ('a heap, unit) outcome" where
  "copy_assign T h p q =
     (case load h q of
        None \<Rightarrow> Fault
      | Some x \<Rightarrow>
          (case load h p of
             None \<Rightarrow> Fault
           | Some _ \<Rightarrow> if copy_assign_throws T x then Throw T_exception h
                       else Ok (store h p (Some x)) ()))"

text \<open>\<^verbatim>\<open>*p = std::move(*q)\<close>\<close>

definition move_assign :: "'a elem_type \<Rightarrow> 'a heap \<Rightarrow> ptr \<Rightarrow> ptr \<Rightarrow> ('a heap, unit) outcome" where
  "move_assign T h p q =
     (case load h q of
        None \<Rightarrow> Fault
      | Some x \<Rightarrow>
          (case move_assign_value T h p x of
             Ok h' _ \<Rightarrow> Ok (store h' q (Some (moved_from T x))) ()
           | Throw e h' \<Rightarrow> Throw e h'
           | Fault \<Rightarrow> Fault))"

section \<open>The standard algorithms the source calls\<close>

text \<open>\<^verbatim>\<open>std::destroy_n(first, n)\<close>; \<^verbatim>\<open>std::destroy(first, last)\<close> is the same with \<open>n = last - first\<close>.\<close>

primrec destroy_n :: "'a heap \<Rightarrow> ptr \<Rightarrow> nat \<Rightarrow> 'a heap option" where
  "destroy_n h p 0 = Some h"
| "destroy_n h p (Suc n) =
     (case destroy_at h p of None \<Rightarrow> None | Some h' \<Rightarrow> destroy_n h' (ptr_add p 1) n)"

text \<open>
  The three \<^verbatim>\<open>std::uninitialized_..._n\<close> algorithms construct \<open>n\<close> objects from
  \<open>d_first\<close> on; when a constructor throws they destroy the objects they have already
  constructed and rethrow. The loops count the objects done in \<open>k\<close>.
\<close>

primrec uninitialized_copy_loop ::
  "'a elem_type \<Rightarrow> 'a heap \<Rightarrow> ptr \<Rightarrow> ptr \<Rightarrow> nat \<Rightarrow> nat \<Rightarrow> ('a heap, unit) outcome" where
  "uninitialized_copy_loop T h first d_first k 0 = Ok h ()"
| "uninitialized_copy_loop T h first d_first k (Suc n) =
     (case copy_construct T h (ptr_add d_first k) (ptr_add first k) of
        Ok h' _ \<Rightarrow> uninitialized_copy_loop T h' first d_first (Suc k) n
      | Throw e h' \<Rightarrow>
          (case destroy_n h' d_first k of None \<Rightarrow> Fault | Some h'' \<Rightarrow> Throw e h'')
      | Fault \<Rightarrow> Fault)"

definition uninitialized_copy_n ::
  "'a elem_type \<Rightarrow> 'a heap \<Rightarrow> ptr \<Rightarrow> nat \<Rightarrow> ptr \<Rightarrow> ('a heap, unit) outcome" where
  "uninitialized_copy_n T h first n d_first = uninitialized_copy_loop T h first d_first 0 n"

primrec uninitialized_move_loop ::
  "'a elem_type \<Rightarrow> 'a heap \<Rightarrow> ptr \<Rightarrow> ptr \<Rightarrow> nat \<Rightarrow> nat \<Rightarrow> ('a heap, unit) outcome" where
  "uninitialized_move_loop T h first d_first k 0 = Ok h ()"
| "uninitialized_move_loop T h first d_first k (Suc n) =
     (case move_construct T h (ptr_add d_first k) (ptr_add first k) of
        Ok h' _ \<Rightarrow> uninitialized_move_loop T h' first d_first (Suc k) n
      | Throw e h' \<Rightarrow>
          (case destroy_n h' d_first k of None \<Rightarrow> Fault | Some h'' \<Rightarrow> Throw e h'')
      | Fault \<Rightarrow> Fault)"

definition uninitialized_move_n ::
  "'a elem_type \<Rightarrow> 'a heap \<Rightarrow> ptr \<Rightarrow> nat \<Rightarrow> ptr \<Rightarrow> ('a heap, unit) outcome" where
  "uninitialized_move_n T h first n d_first = uninitialized_move_loop T h first d_first 0 n"

primrec uninitialized_value_construct_loop ::
  "'a elem_type \<Rightarrow> 'a heap \<Rightarrow> ptr \<Rightarrow> nat \<Rightarrow> nat \<Rightarrow> ('a heap, unit) outcome" where
  "uninitialized_value_construct_loop T h first k 0 = Ok h ()"
| "uninitialized_value_construct_loop T h first k (Suc n) =
     (case construct_at h (ptr_add first k) (default_ctor T) of
        Ok h' _ \<Rightarrow> uninitialized_value_construct_loop T h' first (Suc k) n
      | Throw e h' \<Rightarrow>
          (case destroy_n h' first k of None \<Rightarrow> Fault | Some h'' \<Rightarrow> Throw e h'')
      | Fault \<Rightarrow> Fault)"

definition uninitialized_value_construct_n ::
  "'a elem_type \<Rightarrow> 'a heap \<Rightarrow> ptr \<Rightarrow> nat \<Rightarrow> ('a heap, unit) outcome" where
  "uninitialized_value_construct_n T h first n = uninitialized_value_construct_loop T h first 0 n"

text \<open>
  \<^verbatim>\<open>std::move(first, last, d_first)\<close> assigns front to back and
  \<^verbatim>\<open>std::move_backward(first, last, d_last)\<close> back to front, both by move assignment.
  The ranges lie in one block \<open>a\<close> and are given by slot numbers; the algorithms have
  undefined behaviour when \<open>lst\<close> (the end of the source range) is before \<open>first\<close>.
\<close>

primrec move_loop ::
  "'a elem_type \<Rightarrow> 'a heap \<Rightarrow> addr \<Rightarrow> nat \<Rightarrow> nat \<Rightarrow> nat \<Rightarrow> ('a heap, unit) outcome" where
  "move_loop T h a first d_first 0 = Ok h ()"
| "move_loop T h a first d_first (Suc n) =
     (case move_assign T h (a, d_first) (a, first) of
        Ok h' _ \<Rightarrow> move_loop T h' a (Suc first) (Suc d_first) n
      | Throw e h' \<Rightarrow> Throw e h'
      | Fault \<Rightarrow> Fault)"

definition std_move ::
  "'a elem_type \<Rightarrow> 'a heap \<Rightarrow> addr \<Rightarrow> nat \<Rightarrow> nat \<Rightarrow> nat \<Rightarrow> ('a heap, unit) outcome" where
  "std_move T h a first lst d_first =
     (if lst < first then Fault else move_loop T h a first d_first (lst - first))"

primrec move_backward_loop ::
  "'a elem_type \<Rightarrow> 'a heap \<Rightarrow> addr \<Rightarrow> nat \<Rightarrow> nat \<Rightarrow> nat \<Rightarrow> ('a heap, unit) outcome" where
  "move_backward_loop T h a lst d_last 0 = Ok h ()"
| "move_backward_loop T h a lst d_last (Suc n) =
     (if lst = 0 \<or> d_last = 0 then Fault
      else (case move_assign T h (a, d_last - 1) (a, lst - 1) of
              Ok h' _ \<Rightarrow> move_backward_loop T h' a (lst - 1) (d_last - 1) n
            | Throw e h' \<Rightarrow> Throw e h'
            | Fault \<Rightarrow> Fault))"

definition std_move_backward ::
  "'a elem_type \<Rightarrow> 'a heap \<Rightarrow> addr \<Rightarrow> nat \<Rightarrow> nat \<Rightarrow> nat \<Rightarrow> ('a heap, unit) outcome" where
  "std_move_backward T h a first lst d_last =
     (if lst < first then Fault else move_backward_loop T h a lst d_last (lst - first))"

section \<open>Vector\<close>

record Vector =
  data_m :: RawMemory
  size_m :: nat

text \<open>
  A method takes the heap and the members of \<open>*this\<close> and returns both as they are
  after the call, with the value returned. Constructors return the new object.
  \<^verbatim>\<open>size_t\<close> values are natural numbers; the two products \<^verbatim>\<open>size_ * 2\<close> are
  reduced modulo \<open>2 ^ 64\<close>, the sums and differences of the source stay in range
  wherever the call has defined behaviour.
\<close>

type_synonym 'a vstate = "'a heap \<times> Vector"

text \<open>\<^verbatim>\<open>Vector() = default\<close>\<close>

definition Vector_default :: Vector where
  "Vector_default = \<lparr>data_m = RawMemory_default, size_m = 0\<rparr>"

definition Size :: "Vector \<Rightarrow> nat" where
  "Size this = size_m this"

definition Capacity :: "Vector \<Rightarrow> nat" where
  "Capacity this = RawMemory_Capacity (data_m this)"

text \<open>
  The \<^verbatim>\<open>if constexpr (std::is_nothrow_move_constructible_v<T> || !std::is_copy_constructible_v<T>)\<close>
  block of \<open>Reserve\<close>, \<open>EmplaceBack\<close> and \<open>Emplace\<close>.
\<close>

definition transfer_n ::
  "'a elem_type \<Rightarrow> 'a heap \<Rightarrow> ptr \<Rightarrow> nat \<Rightarrow> ptr \<Rightarrow> ('a heap, unit) outcome" where
  "transfer_n T h first n d_first =
     (if is_nothrow_move_constructible T \<or> \<not> is_copy_constructible T
      then uninitialized_move_n T h first n d_first
      else uninitialized_copy_n T h first n d_first)"

text \<open>\<^verbatim>\<open>explicit Vector(size_t size)\<close>\<close>

definition Vector_sized :: "'a elem_type \<Rightarrow> 'a heap \<Rightarrow> nat \<Rightarrow> ('a heap, Vector) outcome" where
  "Vector_sized T h n =
     (case RawMemory_ctor h n of
        Throw e h1 \<Rightarrow> Throw e h1
      | Fault \<Rightarrow> Fault
      | Ok h1 d \<Rightarrow>
          (case uninitialized_value_construct_n T h1 (GetAddress d) n of
             Ok h2 _ \<Rightarrow> Ok h2 \<lparr>data_m = d, size_m = n\<rparr>
           | Throw e h2 \<Rightarrow>
               (case RawMemory_dtor h2 d of None \<Rightarrow> Fault | Some h3 \<Rightarrow> Throw e h3)
           | Fault \<Rightarrow> Fault))"

text \<open>
  \<^verbatim>\<open>Vector(const Vector& other)\<close>. The source range is a \<^verbatim>\<open>const T*\<close> range, so in the
  first branch \<^verbatim>\<open>std::move(*first)\<close> is a \<^verbatim>\<open>const T&&\<close>, which only the copy
  constructor accepts: \<^verbatim>\<open>std::uninitialized_move_n\<close> copies there and leaves the
  source objects as they are.
\<close>

definition uninitialized_move_n_const ::
  "'a elem_type \<Rightarrow> 'a heap \<Rightarrow> ptr \<Rightarrow> nat \<Rightarrow> ptr \<Rightarrow> ('a heap, unit) outcome" where
  "uninitialized_move_n_const T h first n d_first = uninitialized_copy_loop T h first d_first 0 n"

definition Vector_copy :: "'a elem_type \<Rightarrow> 'a heap \<Rightarrow> Vector \<Rightarrow> ('a heap, Vector) outcome" where
  "Vector_copy T h other =
     (case RawMemory_ctor h (size_m other) of
        Throw e h1 \<Rightarrow> Throw e h1
      | Fault \<Rightarrow> Fault
      | Ok h1 d \<Rightarrow>
          (case (if is_nothrow_move_constructible T \<or> \<not> is_copy_constructible T
                 then uninitialized_move_n_const T h1 (GetAddress (data_m other)) (size_m other)
                        (GetAddress d)
                 else uninitialized_copy_n T h1 (GetAddress (data_m other)) (size_m other)
                        (GetAddress d)) of
             Ok h2 _ \<Rightarrow> Ok h2 \<lparr>data_m = d, size_m = size_m other\<rparr>
           | Throw e h2 \<Rightarrow>
               (case RawMemory_dtor h2 d of None \<Rightarrow> Fault | Some h3 \<Rightarrow> Throw e h3)
           | Fault \<Rightarrow> Fault))"

text \<open>
  \<^verbatim>\<open>void Swap(Vector& other)\<close>: the members of \<open>this\<close> and of \<open>other\<close> afterwards.
\<close>

definition Vector_Swap :: "Vector \<Rightarrow> Vector \<Rightarrow> Vector \<times> Vector" where
  "Vector_Swap this other =
     (\<lparr>data_m = fst (RawMemory_Swap (data_m this) (data_m other)), size_m = size_m other\<rparr>,
      \<lparr>data_m = snd (RawMemory_Swap (data_m this) (data_m other)), size_m = size_m this\<rparr>)"

text \<open>
  \<^verbatim>\<open>Vector(Vector&& other)\<close>: the members start from their default initialisers and are
  swapped with those of \<open>other\<close>. The result is the new object and what is left in \<open>other\<close>.
\<close>

definition Vector_move :: "Vector \<Rightarrow> Vector \<times> Vector" where
  "Vector_move other =
     (\<lparr>data_m = fst (RawMemory_Swap RawMemory_default (data_m other)), size_m = size_m other\<rparr>,
      \<lparr>data_m = snd (RawMemory_Swap RawMemory_default (data_m other)), size_m = 0\<rparr>)"

text \<open>\<^verbatim>\<open>~Vector()\<close>, followed by the destructor of the member \<open>data_\<close>.\<close>

definition Vector_dtor :: "'a heap \<Rightarrow> Vector \<Rightarrow> 'a heap option" where
  "Vector_dtor h this =
     (case destroy_n h (GetAddress (data_m this)) (size_m this) of
        None \<Rightarrow> None
      | Some h1 \<Rightarrow> RawMemory_dtor h1 (data_m this))"

text \<open>
  The end of \<open>Reserve\<close>, \<open>EmplaceBack\<close> and \<open>Emplace\<close> when they have built \<open>new_data\<close>:
  \<^verbatim>\<open>std::destroy_n(data_.GetAddress(), size_); data_.Swap(new_data);\<close> and the destructor
  of the local \<open>new_data\<close>, which then holds the old block.
\<close>

definition adopt :: "'a heap \<Rightarrow> Vector \<Rightarrow> RawMemory \<Rightarrow> 'a vstate option" where
  "adopt h this new_data =
     (case destroy_n h (GetAddress (data_m this)) (size_m this) of
        None \<Rightarrow> None
      | Some h1 \<Rightarrow>
          (case RawMemory_dtor h1 (snd (RawMemory_Swap (data_m this) new_data)) of
             None \<Rightarrow> None
           | Some h2 \<Rightarrow> Some (h2, this\<lparr>data_m := fst (RawMemory_Swap (data_m this) new_data)\<rparr>)))"

text \<open>
  An exception that leaves a block in which the local \<open>new_data\<close> is alive runs its
  destructor on the way out.
\<close>

definition unwind :: "exn \<Rightarrow> 'a heap \<Rightarrow> Vector \<Rightarrow> RawMemory \<Rightarrow> ('a vstate, 'r) outcome" where
  "unwind e h this new_data =
     (case RawMemory_dtor h new_data of None \<Rightarrow> Fault | Some h1 \<Rightarrow> Throw e (h1, this))"

text \<open>\<^verbatim>\<open>void Reserve(size_t new_capacity)\<close>\<close>

definition Reserve :: "'a elem_type \<Rightarrow> 'a heap \<Rightarrow> Vector \<Rightarrow> nat \<Rightarrow> ('a vstate, unit) outcome" where
  "Reserve T h this new_capacity =
     (if new_capacity \<le> RawMemory_Capacity (data_m this) then Ok (h, this) ()
      else
        (case RawMemory_ctor h new_capacity of
           Throw e h1 \<Rightarrow> Throw e (h1, this)
         | Fault \<Rightarrow> Fault
         | Ok h1 new_data \<Rightarrow>
             (case transfer_n T h1 (GetAddress (data_m this)) (size_m this)
                     (GetAddress new_data) of
                Throw e h2 \<Rightarrow> unwind e h2 this new_data
              | Fault \<Rightarrow> Fault
              | Ok h2 _ \<Rightarrow>
                  (case adopt h2 this new_data of
                     None \<Rightarrow> Fault
                   | Some s \<Rightarrow> Ok s ()))))"

text \<open>\<^verbatim>\<open>void Resize(size_t new_size)\<close>\<close>

definition Resize_shrink :: "'a heap \<Rightarrow> Vector \<Rightarrow> nat \<Rightarrow> ('a vstate, unit) outcome" where
  "Resize_shrink h this new_size =
     (case (if new_size < size_m this
            then destroy_n h (ptr_add (GetAddress (data_m this)) new_size)
                   (size_m this - new_size)
            else Some h) of
        None \<Rightarrow> Fault
      | Some h1 \<Rightarrow> Ok (h1, this\<lparr>size_m := new_size\<rparr>) ())"

definition Resize :: "'a elem_type \<Rightarrow> 'a heap \<Rightarrow> Vector \<Rightarrow> nat \<Rightarrow> ('a vstate, unit) outcome" where
  "Resize T h this new_size =
     (if new_size > size_m this then
        (case Reserve T h this new_size of
           Throw e s \<Rightarrow> Throw e s
         | Fault \<Rightarrow> Fault
         | Ok (h1, this1) _ \<Rightarrow>
             (case uninitialized_value_construct_n T h1
                     (ptr_add (GetAddress (data_m this1)) (size_m this1))
                     (new_size - size_m this1) of
                Throw e h2 \<Rightarrow> Throw e (h2, this1)
              | Fault \<Rightarrow> Fault
              | Ok h2 _ \<Rightarrow> Resize_shrink h2 this1 new_size))
      else Resize_shrink h this new_size)"

text \<open>
  \<^verbatim>\<open>T& EmplaceBack(Args&&... args)\<close>. \<open>arg\<close> is what \<^verbatim>\<open>T(std::forward<Args>(args)...)\<close>
  yields. The end of the method, \<^verbatim>\<open>++size_; return data_[size_ - 1];\<close>, is \<open>appended\<close>.
\<close>

definition appended :: "'a heap \<Rightarrow> Vector \<Rightarrow> ('a vstate, ptr) outcome" where
  "appended h this =
     (case RawMemory_index (data_m this) (size_m this + 1 - 1) of
        None \<Rightarrow> Fault
      | Some r \<Rightarrow> Ok (h, this\<lparr>size_m := size_m this + 1\<rparr>) r)"

text \<open>
  The local of \<open>EmplaceBack\<close>:
  \<^verbatim>\<open>size_t capacity_tmp = 0; size_ == 0 ? capacity_tmp += 1 : capacity_tmp += size_ * 2;\<close>
\<close>

definition capacity_tmp :: "Vector \<Rightarrow> nat" where
  "capacity_tmp this = (if size_m this = 0 then 0 + 1 else (0 + size_m this * 2) mod 2 ^ 64)"

definition EmplaceBack ::
  "'a elem_type \<Rightarrow> 'a heap \<Rightarrow> Vector \<Rightarrow> 'a option \<Rightarrow> ('a vstate, ptr) outcome" where
  "EmplaceBack T h this arg =
     (if size_m this = Capacity this then
        (case RawMemory_ctor h (capacity_tmp this) of
           Throw e h1 \<Rightarrow> Throw e (h1, this)
         | Fault \<Rightarrow> Fault
         | Ok h1 new_data \<Rightarrow>
             (case RawMemory_plus new_data (size_m this) of
                None \<Rightarrow> Fault
              | Some p \<Rightarrow>
                  (case construct_at h1 p arg of
                     Throw e h2 \<Rightarrow> unwind e h2 this new_data
                   | Fault \<Rightarrow> Fault
                   | Ok h2 _ \<Rightarrow>
                       (case transfer_n T h2 (GetAddress (data_m this)) (size_m this)
                               (GetAddress new_data) of
                          Throw e h3 \<Rightarrow> unwind e h3 this new_data
                        | Fault \<Rightarrow> Fault
                        | Ok h3 _ \<Rightarrow>
                            (case adopt h3 this new_data of
                               None \<Rightarrow> Fault
                             | Some (h4, this4) \<Rightarrow> appended h4 this4)))))
      else
        (case RawMemory_plus (data_m this) (size_m this) of
           None \<Rightarrow> Fault
         | Some p \<Rightarrow>
             (case construct_at h p arg of
                Throw e h1 \<Rightarrow> Throw e (h1, this)
              | Fault \<Rightarrow> Fault
              | Ok h1 _ \<Rightarrow> appended h1 this)))"

text \<open>\<^verbatim>\<open>T& PushBack(const T& value)\<close> and \<^verbatim>\<open>T& PushBack(T&& value)\<close>\<close>

definition PushBack ::
  "'a elem_type \<Rightarrow> 'a heap \<Rightarrow> Vector \<Rightarrow> 'a \<Rightarrow> ('a vstate, ptr) outcome" where
  "PushBack T h this v = EmplaceBack T h this (copy_ctor T v)"

definition PushBack_rvalue ::
  "'a elem_type \<Rightarrow> 'a heap \<Rightarrow> Vector \<Rightarrow> 'a \<Rightarrow> ('a vstate, ptr) outcome" where
  "PushBack_rvalue T h this v = EmplaceBack T h this (move_ctor T v)"

text \<open>
  \<^verbatim>\<open>--size_\<close> on a \<^verbatim>\<open>size_t\<close>: from 0 it wraps around to \<open>2 ^ 64 - 1\<close>.
\<close>

definition pre_decrement :: "nat \<Rightarrow> nat" where
  "pre_decrement n = (n + (2 ^ 64 - 1)) mod 2 ^ 64"

text \<open>
  \<^verbatim>\<open>std::destroy_n(first, n)\<close> at a pointer that a subtraction has computed. Before the
  block there is no object: the destructor of a trivially destructible \<open>T\<close> is no code,
  so the call does nothing and returns; any other destructor runs on what is no object.
\<close>

definition destroy_n_at :: "'a elem_type \<Rightarrow> 'a heap \<Rightarrow> ptr option \<Rightarrow> nat \<Rightarrow> 'a heap option" where
  "destroy_n_at T h first n =
     (case first of
        None \<Rightarrow> if is_trivially_destructible T then Some h else None
      | Some p \<Rightarrow> destroy_n h p n)"

text \<open>
  \<^verbatim>\<open>void PopBack()\<close>:
  \<^verbatim>\<open>std::destroy_n(data_.GetAddress() + size_ - 1, 1); --size_;\<close>
  The source has no guard. With \<^verbatim>\<open>size_ == 0\<close> the pointer lies before the block, and
  when the call of \<^verbatim>\<open>std::destroy_n\<close> returns, \<open>size_\<close> wraps around.
\<close>

definition PopBack :: "'a elem_type \<Rightarrow> 'a heap \<Rightarrow> Vector \<Rightarrow> ('a vstate, unit) outcome" where
  "PopBack T h this =
     (case destroy_n_at T h
             (ptr_sub (ptr_add (GetAddress (data_m this)) (size_m this)) 1) 1 of
        None \<Rightarrow> Fault
      | Some h1 \<Rightarrow> Ok (h1, this\<lparr>size_m := pre_decrement (size_m this)\<rparr>) ())"

text \<open>
  \<^verbatim>\<open>iterator Emplace(const_iterator pos, Args&&... args)\<close>. The iterator \<open>pos\<close> is given
  by \<open>result\<close>, its distance \<^verbatim>\<open>pos - begin()\<close>; an iterator outside
  \<^verbatim>\<open>[begin(), end()]\<close> is not one the method may be given. The value returned is
  \<^verbatim>\<open>data_.GetAddress() + result\<close>.
\<close>

definition Emplace ::
  "'a elem_type \<Rightarrow> 'a heap \<Rightarrow> Vector \<Rightarrow> nat \<Rightarrow> 'a option \<Rightarrow> ('a vstate, ptr) outcome" where
  "Emplace T h this result arg =
     (if size_m this < result then Fault
      else if size_m this = result then
        (case EmplaceBack T h this arg of
           Throw e s \<Rightarrow> Throw e s
         | Fault \<Rightarrow> Fault
         | Ok (h1, this1) _ \<Rightarrow> Ok (h1, this1) (ptr_add (GetAddress (data_m this1)) result))
      else if size_m this < Capacity this then
        (case arg of
           None \<Rightarrow> Throw T_exception (h, this)
         | Some tmp \<Rightarrow>
             (case (RawMemory_plus (data_m this) (size_m this),
                    RawMemory_index (data_m this) (size_m this - 1),
                    RawMemory_index (data_m this) result) of
                (Some p, Some q, Some r) \<Rightarrow>
                  (case move_construct T h p q of
                     Throw e h1 \<Rightarrow> Throw e (h1, this)
                   | Fault \<Rightarrow> Fault
                   | Ok h1 _ \<Rightarrow>
                       (case std_move_backward T h1 (buffer_m (data_m this)) result
                               (size_m this - 1) (size_m this) of
                          Throw e h2 \<Rightarrow> Throw e (h2, this)
                        | Fault \<Rightarrow> Fault
                        | Ok h2 _ \<Rightarrow>
                            (case move_assign_value T h2 r tmp of
                               Throw e h3 \<Rightarrow> Throw e (h3, this)
                             | Fault \<Rightarrow> Fault
                             | Ok h3 _ \<Rightarrow>
                                 Ok (h3, this\<lparr>size_m := size_m this + 1\<rparr>)
                                    (ptr_add (GetAddress (data_m this)) result))))
              | _ \<Rightarrow> Fault))
      else
        (case RawMemory_ctor h ((size_m this * 2) mod 2 ^ 64) of
           Throw e h1 \<Rightarrow> Throw e (h1, this)
         | Fault \<Rightarrow> Fault
         | Ok h1 new_data \<Rightarrow>
             (case RawMemory_plus new_data result of
                None \<Rightarrow> Fault
              | Some p \<Rightarrow>
                  (case construct_at h1 p arg of
                     Throw e h2 \<Rightarrow> unwind e h2 this new_data
                   | Fault \<Rightarrow> Fault
                   | Ok h2 _ \<Rightarrow>
                       (case transfer_n T h2 (GetAddress (data_m this)) result
                               (GetAddress new_data) of
                          Throw e h3 \<Rightarrow> unwind e h3 this new_data
                        | Fault \<Rightarrow> Fault
                        | Ok h3 _ \<Rightarrow>
                            (case transfer_n T h3 (ptr_add (GetAddress (data_m this)) result)
                                    (size_m this - result)
                                    (ptr_add (GetAddress new_data) (result + 1)) of
                               Throw e h4 \<Rightarrow> unwind e h4 this new_data
                             | Fault \<Rightarrow> Fault
                             | Ok h4 _ \<Rightarrow>
                                 (case adopt h4 this new_data of
                                    None \<Rightarrow> Fault
                                  | Some (h5, this5) \<Rightarrow>
                                      Ok (h5, this5\<lparr>size_m := size_m this5 + 1\<rparr>)
                                         (ptr_add (GetAddress (data_m this5)) result))))))))"

text \<open>
  \<^verbatim>\<open>iterator Erase(const_iterator pos)\<close>, with \<open>pos\<close> given by its distance from
  \<^verbatim>\<open>begin()\<close>. \<^verbatim>\<open>std::move(pos_it + 1, end(), pos_it)\<close> has undefined behaviour unless
  \<open>pos\<close> is before \<^verbatim>\<open>end()\<close>.
\<close>

definition Erase ::
  "'a elem_type \<Rightarrow> 'a heap \<Rightarrow> Vector \<Rightarrow> nat \<Rightarrow> ('a vstate, ptr) outcome" where
  "Erase T h this pos =
     (case RawMemory_plus (data_m this) (size_m this) of
        None \<Rightarrow> Fault
      | Some _ \<Rightarrow>
          (case std_move T h (buffer_m (data_m this)) (pos + 1) (size_m this) pos of
             Throw e h1 \<Rightarrow> Throw e (h1, this)
           | Fault \<Rightarrow> Fault
           | Ok h1 _ \<Rightarrow>
               (case destroy_n h1 (ptr_add (GetAddress (data_m this)) (size_m this - 1)) 1 of
                  None \<Rightarrow> Fault
                | Some h2 \<Rightarrow>
                    Ok (h2, this\<lparr>size_m := size_m this - 1\<rparr>) (buffer_m (data_m this), pos))))"

text \<open>\<^verbatim>\<open>iterator Insert(const_iterator pos, const T& value)\<close> and \<^verbatim>\<open>Insert(const_iterator pos, T&& value)\<close>\<close>

definition Insert ::
  "'a elem_type \<Rightarrow> 'a heap \<Rightarrow> Vector \<Rightarrow> nat \<Rightarrow> 'a \<Rightarrow> ('a vstate, ptr) outcome" where
  "Insert T h this pos v = Emplace T h this pos (copy_ctor T v)"

definition Insert_rvalue ::
  "'a elem_type \<Rightarrow> 'a heap \<Rightarrow> Vector \<Rightarrow> nat \<Rightarrow> 'a \<Rightarrow> ('a vstate, ptr) outcome" where
  "Insert_rvalue T h this pos v = Emplace T h this pos (move_ctor T v)"

text \<open>
  \<^verbatim>\<open>const T& operator[](size_t index)\<close> with its \<^verbatim>\<open>assert(index < size_)\<close>, and the
  iterators \<^verbatim>\<open>begin()\<close> and \<^verbatim>\<open>end()\<close>.
\<close>

definition Vector_index :: "Vector \<Rightarrow> nat \<Rightarrow> ptr option" where
  "Vector_index this index =
     (if index < size_m this then RawMemory_index (data_m this) index else None)"

definition Vector_begin :: "Vector \<Rightarrow> ptr" where
  "Vector_begin this = GetAddress (data_m this)"

definition Vector_end :: "Vector \<Rightarrow> ptr option" where
  "Vector_end this = RawMemory_plus (data_m this) (size_m this)"

text \<open>
  What a loop over \<^verbatim>\<open>[begin(), end())\<close> reads: the object at each of the \<open>size_\<close>
  positions from \<^verbatim>\<open>begin()\<close> on, \<open>None\<close> where there is none.
\<close>

definition elements :: "'a heap \<Rightarrow> Vector \<Rightarrow> 'a option list" where
  "elements h this = map (\<lambda>i. load h (ptr_add (Vector_begin this) i)) [0..<size_m this]"

section \<open>Vector objects in a store\<close>

text \<open>
  The copy assignment compares the addresses of its two operands, and \<open>Swap\<close> and the
  move assignment write to both. These methods are modelled on a store of \<open>Vector\<close>
  objects: \<open>vecs w r\<close> are the members of the object at reference \<open>r\<close>, and \<open>live w\<close>
  are the references whose object has been constructed and not yet destroyed.
\<close>

record 'a world =
  heap_w :: "'a heap"
  vecs :: "ref \<Rightarrow> Vector"
  live :: "ref set"

definition initial_world :: "nat \<Rightarrow> 'a world" where
  "initial_world lim = \<lparr>heap_w = empty_heap lim, vecs = (\<lambda>_. Vector_default), live = {}\<rparr>"

text \<open>\<^verbatim>\<open>this->Swap(other)\<close>\<close>

definition Swap_at :: "'a world \<Rightarrow> ref \<Rightarrow> ref \<Rightarrow> 'a world" where
  "Swap_at w this other =
     w\<lparr>vecs := (vecs w)(this := fst (Vector_Swap (vecs w this) (vecs w other)),
                         other := snd (Vector_Swap (vecs w this) (vecs w other)))\<rparr>"

text \<open>\<^verbatim>\<open>Vector& operator=(Vector&& rhs)\<close>\<close>

definition move_assign_at :: "'a world \<Rightarrow> ref \<Rightarrow> ref \<Rightarrow> 'a world" where
  "move_assign_at w this rhs = Swap_at w this rhs"

text \<open>
  The two loops \<^verbatim>\<open>for (size_t part = 0; part < n; ++part) data_[part] = rhs.data_[part];\<close>
  of the copy assignment.
\<close>

primrec copy_assign_loop ::
  "'a elem_type \<Rightarrow> 'a heap \<Rightarrow> RawMemory \<Rightarrow> RawMemory \<Rightarrow> nat \<Rightarrow> nat \<Rightarrow> ('a heap, unit) outcome" where
  "copy_assign_loop T h d rd part 0 = Ok h ()"
| "copy_assign_loop T h d rd part (Suc n) =
     (case (RawMemory_index d part, RawMemory_index rd part) of
        (Some p, Some q) \<Rightarrow>
          (case copy_assign T h p q of
             Ok h' _ \<Rightarrow> copy_assign_loop T h' d rd (Suc part) n
           | Throw e h' \<Rightarrow> Throw e h'
           | Fault \<Rightarrow> Fault)
      | _ \<Rightarrow> Fault)"

text \<open>
  The body of \<^verbatim>\<open>if (this != &rhs) { ... }\<close> in the copy assignment, for the members
  \<open>this\<close> and \<open>rhs\<close> of two distinct objects. The local \<open>temp_data\<close> is destroyed at
  the end of its block.
\<close>

definition copy_assign_body ::
  "'a elem_type \<Rightarrow> 'a heap \<Rightarrow> Vector \<Rightarrow> Vector \<Rightarrow> ('a vstate, unit) outcome" where
  "copy_assign_body T h this rhs =
     (if size_m rhs > RawMemory_Capacity (data_m this) then
        (case Vector_copy T h rhs of
           Throw e h1 \<Rightarrow> Throw e (h1, this)
         | Fault \<Rightarrow> Fault
         | Ok h1 temp_data \<Rightarrow>
             (case Vector_dtor h1 (snd (Vector_Swap this temp_data)) of
                None \<Rightarrow> Fault
              | Some h2 \<Rightarrow> Ok (h2, fst (Vector_Swap this temp_data)) ()))
      else if size_m rhs < size_m this then
        (case copy_assign_loop T h (data_m this) (data_m rhs) 0 (size_m rhs) of
           Throw e h1 \<Rightarrow> Throw e (h1, this)
         | Fault \<Rightarrow> Fault
         | Ok h1 _ \<Rightarrow>
             (case destroy_n h1 (ptr_add (GetAddress (data_m this)) (size_m rhs))
                     (size_m this - size_m rhs) of
                None \<Rightarrow> Fault
              | Some h2 \<Rightarrow> Ok (h2, this) ()))
      else
        (case copy_assign_loop T h (data_m this) (data_m rhs) 0 (size_m this) of
           Throw e h1 \<Rightarrow> Throw e (h1, this)
         | Fault \<Rightarrow> Fault
         | Ok h1 _ \<Rightarrow>
             (case uninitialized_copy_n T h1 (ptr_add (GetAddress (data_m rhs)) (size_m this))
                     (size_m rhs - size_m this)
                     (ptr_add (GetAddress (data_m this)) (size_m this)) of
                Throw e h2 \<Rightarrow> Throw e (h2, this)
              | Fault \<Rightarrow> Fault
              | Ok h2 _ \<Rightarrow> Ok (h2, this) ())))"

text \<open>\<^verbatim>\<open>Vector& operator=(const Vector& rhs)\<close>\<close>

definition copy_assign_at ::
  "'a elem_type \<Rightarrow> 'a world \<Rightarrow> ref \<Rightarrow> ref \<Rightarrow> ('a world, unit) outcome" where
  "copy_assign_at T w this rhs =
     (case (if this \<noteq> rhs then copy_assign_body T (heap_w w) (vecs w this) (vecs w rhs)
            else Ok (heap_w w, vecs w this) ()) of
        Throw e (h1, this1) \<Rightarrow> Throw e (w\<lparr>heap_w := h1, vecs := (vecs w)(this := this1)\<rparr>)
      | Fault \<Rightarrow> Fault
      | Ok (h1, this1) _ \<Rightarrow>
          (let w1 = w\<lparr>heap_w := h1, vecs := (vecs w)(this := this1)\<rparr>
           in Ok (w1\<lparr>vecs := (vecs w1)(this := (vecs w1 this)\<lparr>size_m := size_m (vecs w1 rhs)\<rparr>)\<rparr>) ()))"

text \<open>
  A method call on the object at \<open>r\<close>, and the construction of a new object at \<open>r\<close>.
  Using an object outside its lifetime is undefined.
\<close>

definition call_on ::
  "'a world \<Rightarrow> ref \<Rightarrow> ('a heap \<Rightarrow> Vector \<Rightarrow> ('a vstate, 'r) outcome) \<Rightarrow> ('a world, unit) outcome" where
  "call_on w r m =
     (if r \<notin> live w then Fault
      else (case m (heap_w w) (vecs w r) of
              Ok (h1, v1) _ \<Rightarrow> Ok (w\<lparr>heap_w := h1, vecs := (vecs w)(r := v1)\<rparr>) ()
            | Throw e (h1, v1) \<Rightarrow> Throw e (w\<lparr>heap_w := h1, vecs := (vecs w)(r := v1)\<rparr>)
            | Fault \<Rightarrow> Fault))"

definition construct_on ::
  "'a world \<Rightarrow> ref \<Rightarrow> ('a heap, Vector) outcome \<Rightarrow> ('a world, unit) outcome" where
  "construct_on w r c =
     (if r \<in> live w then Fault
      else (case c of
              Ok h1 v1 \<Rightarrow>
                Ok (w\<lparr>heap_w := h1, vecs := (vecs w)(r := v1), live := insert r (live w)\<rparr>) ()
            | Throw e h1 \<Rightarrow> Throw e (w\<lparr>heap_w := h1\<rparr>)
            | Fault \<Rightarrow> Fault))"

text \<open>The public operations, each with the object it is called on.\<close>

datatype 'a call =
    New_default ref
  | New_sized ref nat
  | New_copy ref ref
  | New_move ref ref
  | Delete ref
  | Call_Reserve ref nat
  | Call_Resize ref nat
  | Call_PushBack ref 'a
  | Call_PushBack_rvalue ref 'a
  | Call_EmplaceBack ref "'a option"
  | Call_PopBack ref
  | Call_Insert ref nat 'a
  | Call_Insert_rvalue ref nat 'a
  | Call_Emplace ref nat "'a option"
  | Call_Erase ref nat
  | Call_Swap ref ref
  | Assign_copy ref ref
  | Assign_move ref ref

fun exec :: "'a elem_type \<Rightarrow> 'a world \<Rightarrow> 'a call \<Rightarrow> ('a world, unit) outcome" where
  "exec T w (New_default r) = construct_on w r (Ok (heap_w w) Vector_default)"
| "exec T w (New_sized r n) = construct_on w r (Vector_sized T (heap_w w) n)"
| "exec T w (New_copy r other) =
     (if other \<notin> live w then Fault
      else construct_on w r (Vector_copy T (heap_w w) (vecs w other)))"
| "exec T w (New_move r other) =
     (if other \<notin> live w \<or> r \<in> live w then Fault
      else Ok (w\<lparr>vecs := (vecs w)(other := snd (Vector_move (vecs w other)),
                                   r := fst (Vector_move (vecs w other))),
                 live := insert r (live w)\<rparr>) ())"
| "exec T w (Delete r) =
     (if r \<notin> live w then Fault
      else (case Vector_dtor (heap_w w) (vecs w r) of
              None \<Rightarrow> Fault
            | Some h1 \<Rightarrow> Ok (w\<lparr>heap_w := h1, live := live w - {r}\<rparr>) ()))"
| "exec T w (Call_Reserve r n) = call_on w r (\<lambda>h v. Reserve T h v n)"
| "exec T w (Call_Resize r n) = call_on w r (\<lambda>h v. Resize T h v n)"
| "exec T w (Call_PushBack r x) = call_on w r (\<lambda>h v. PushBack T h v x)"
| "exec T w (Call_PushBack_rvalue r x) = call_on w r (\<lambda>h v. PushBack_rvalue T h v x)"
| "exec T w (Call_EmplaceBack r arg) = call_on w r (\<lambda>h v. EmplaceBack T h v arg)"
| "exec T w (Call_PopBack r) = call_on w r (\<lambda>h v. PopBack T h v)"
| "exec T w (Call_Insert r pos x) = call_on w r (\<lambda>h v. Insert T h v pos x)"
| "exec T w (Call_Insert_rvalue r pos x) = call_on w r (\<lambda>h v. Insert_rvalue T h v pos x)"
| "exec T w (Call_Emplace r pos arg) = call_on w r (\<lambda>h v. Emplace T h v pos arg)"
| "exec T w (Call_Erase r pos) = call_on w r (\<lambda>h v. Erase T h v pos)"
| "exec T w (Call_Swap r other) =
     (if r \<notin> live w \<or> other \<notin> live w then Fault else Ok (Swap_at w r other) ())"
| "exec T w (Assign_copy r rhs) =
     (if r \<notin> live w \<or> rhs \<notin> live w then Fault else copy_assign_at T w r rhs)"
| "exec T w (Assign_move r rhs) =
     (if r \<notin> live w \<or> rhs \<notin> live w then Fault else Ok (move_assign_at w r rhs) ())"

text \<open>
  A client program is a list of calls. A call that throws leaves the state it leaves and
  the program goes on (the client catches the exception); undefined behaviour ends it.
\<close>

fun run :: "'a elem_type \<Rightarrow> 'a world \<Rightarrow> 'a call list \<Rightarrow> 'a world option" where
  "run T w [] = Some w"
| "run T w (c # cs) =
     (case exec T w c of
        Ok w' _ \<Rightarrow> run T w' cs
      | Throw e w' \<Rightarrow> run T w' cs
      | Fault \<Rightarrow> None)"

text \<open>
  The precondition that the source leaves to the caller without a check that ends the
  call: \<open>PopBack\<close> is for a vector that is not empty. A program is within the contract
  when each of its calls is made in a state that meets the precondition of the call.
\<close>

fun precondition :: "'a world \<Rightarrow> 'a call \<Rightarrow> bool" where
  "precondition w (Call_PopBack r) = (0 < Size (vecs w r))"
| "precondition w c = True"

fun in_contract :: "'a elem_type \<Rightarrow> 'a world \<Rightarrow> 'a call list \<Rightarrow> bool" where
  "in_contract T w [] = True"
| "in_contract T w (c # cs) =
     (precondition w c \<and>
      (case exec T w c of
         Ok w' _ \<Rightarrow> in_contract T w' cs
       | Throw e w' \<Rightarrow> in_contract T w' cs
       | Fault \<Rightarrow> True))"

section \<open>Sequences of appends\<close>






section \<open>Observing the heap\<close>

text \<open>
  The length of the block at an address, and heaps that agree on every block length,
  on the next free address and on the limit: only \<open>operator new\<close> and
  \<open>operator delete\<close> change these.
\<close>

definition block_len :: "'a heap \<Rightarrow> addr \<Rightarrow> nat option" where
  "block_len h a = map_option length (blocks h a)"

definition same_shape :: "'a heap \<Rightarrow> 'a heap \<Rightarrow> bool" where
  "same_shape h h' = (block_len h' = block_len h \<and> next_addr h' = next_addr h \<and> mem_limit h' = mem_limit h)"

section \<open>Well-formed states\<close>

text \<open>
  In a well-formed heap the free addresses, from \<open>next_addr\<close> on, hold no block. A
  vector owns its storage when its size is at most its capacity, its buffer is null with
  capacity 0 or is a block of exactly \<open>capacity_\<close> slots, and the first \<open>size_\<close> slots
  hold live objects.
\<close>

definition heap_ok :: "'a heap \<Rightarrow> bool" where
  "heap_ok h = (0 < next_addr h \<and> (\<forall>a. next_addr h \<le> a \<longrightarrow> block_len h a = None))"

definition owns :: "'a heap \<Rightarrow> Vector \<Rightarrow> bool" where
  "owns h this =
     (size_m this \<le> capacity_m (data_m this) \<and>
      (if buffer_m (data_m this) = 0 then capacity_m (data_m this) = 0
       else block_len h (buffer_m (data_m this)) = Some (capacity_m (data_m this))) \<and>
      (\<forall>i<size_m this. load h (buffer_m (data_m this), i) \<noteq> None))"

text \<open>The invariant of the store: no object has more elements than capacity.\<close>

definition members_ok :: "'a world \<Rightarrow> bool" where
  "members_ok w = (\<forall>r. Size (vecs w r) \<le> Capacity (vecs w r))"


section \<open>Example element types and objects\<close>

text \<open>
  An element type like \<^verbatim>\<open>int\<close>, of which no operation throws, and one whose move
  constructor is not \<^verbatim>\<open>noexcept\<close> and whose copy constructor throws on the value 13.
\<close>

definition int_type :: "nat elem_type" where
  "int_type = \<lparr>is_nothrow_move_constructible = True, is_copy_constructible = True,
     is_trivially_destructible = True,
     default_ctor = Some 0, copy_throws = (\<lambda>_. False), move_throws = (\<lambda>_. False),
     copy_assign_throws = (\<lambda>_. False), move_assign_throws = (\<lambda>_. False),
     moved_from = (\<lambda>x. x)\<rparr>"

definition throwing_type :: "nat elem_type" where
  "throwing_type = \<lparr>is_nothrow_move_constructible = False, is_copy_constructible = True,
     is_trivially_destructible = False,
     default_ctor = Some 0, copy_throws = (\<lambda>x. x = 13), move_throws = (\<lambda>_. False),
     copy_assign_throws = (\<lambda>_. False), move_assign_throws = (\<lambda>_. False),
     moved_from = (\<lambda>x. x)\<rparr>"

text \<open>
  Two vectors: the one at reference 0 holds 10, 20 in a block of four slots, the one at
  reference 1 holds 7 in a block of one slot. \<open>demo_program\<close> builds them.
\<close>

definition demo_heap :: "nat heap" where
  "demo_heap =
     \<lparr>blocks = (\<lambda>_. None)(1 := Some [Some 10, Some 20, None, None], 2 := Some [Some 7]),
      next_addr = 3, mem_limit = 100\<rparr>"

definition demo_a :: Vector where
  "demo_a = \<lparr>data_m = \<lparr>buffer_m = 1, capacity_m = 4\<rparr>, size_m = 2\<rparr>"

definition demo_b :: Vector where
  "demo_b = \<lparr>data_m = \<lparr>buffer_m = 2, capacity_m = 1\<rparr>, size_m = 1\<rparr>"

definition demo_world :: "nat world" where
  "demo_world =
     \<lparr>heap_w = demo_heap, vecs = (\<lambda>_. Vector_default)(0 := demo_a, 1 := demo_b), live = {0, 1}\<rparr>"

definition demo_program :: "nat call list" where
  "demo_program =
     [New_default 0, Call_Reserve 0 4, Call_PushBack 0 10, Call_PushBack 0 20,
      New_default 1, Call_PushBack 1 7]"

text \<open>The state after the copy assignment of the vector at 1 to the vector at 0.\<close>

definition demo_assigned :: "nat world" where
  "demo_assigned =
     \<lparr>heap_w = \<lparr>blocks = (\<lambda>_. None)(1 := Some [Some 7, None, None, None], 2 := Some [Some 7]),
                next_addr = 3, mem_limit = 100\<rparr>,
      vecs = (\<lambda>_. Vector_default)(0 := demo_a\<lparr>size_m := 1\<rparr>, 1 := demo_b), live = {0, 1}\<rparr>"

text \<open>
  A program on \<open>throwing_type\<close>: the \<open>PushBack\<close> and the \<open>Reserve\<close> on the full vector
  holding 13 throw from the copy of 13 into the new block, the calls after them run on
  the vector as it was.
\<close>

definition throwing_program :: "nat call list" where
  "throwing_program =
     [New_default 0, Call_EmplaceBack 0 (Some 13), Call_PushBack 0 5, Call_Reserve 0 4,
      Call_PopBack 0, Call_PushBack 0 7]"

definition throwing_world :: "nat world" where
  "throwing_world =
     \<lparr>heap_w = \<lparr>blocks = (\<lambda>_. None)(1 := Some [Some 7]), next_addr = 4, mem_limit = 100\<rparr>,
      vecs = (\<lambda>_. Vector_default)(0 := \<lparr>data_m = \<lparr>buffer_m = 1, capacity_m = 1\<rparr>, size_m = 1\<rparr>),
      live = {0}\<rparr>"

text \<open>
  \<^verbatim>\<open>Vector<int> v; v.PopBack();\<close> and the state it ends in: the size has wrapped around.
\<close>

definition pop_empty_program :: "nat call list" where
  "pop_empty_program = [New_default 0, Call_PopBack 0]"

definition pop_empty_world :: "nat world" where
  "pop_empty_world =
     \<lparr>heap_w = empty_heap 100,
      vecs = (\<lambda>_. Vector_default)
        (0 := \<lparr>data_m = \<lparr>buffer_m = 0, capacity_m = 0\<rparr>, size_m = 18446744073709551615\<rparr>),
      live = {0}\<rparr>"




definition heap_pushed :: "nat heap" where
  "heap_pushed =
     \<lparr>blocks = (\<lambda>_. None)(1 := Some [Some 10, Some 20, None, None], 3 := Some [Some 7, Some 8]),
      next_addr = 4, mem_limit = 100\<rparr>"

definition vector_pushed :: Vector where
  "vector_pushed = \<lparr>data_m = \<lparr>buffer_m = 3, capacity_m = 2\<rparr>, size_m = 2\<rparr>"

text \<open>A full vector holding the value 13, on which the copy constructor of \<open>throwing_type\<close> throws.\<close>

definition heap_13 :: "nat heap" where
  "heap_13 = \<lparr>blocks = (\<lambda>_. None)(1 := Some [Some 13]), next_addr = 2, mem_limit = 100\<rparr>"

definition vector_13 :: Vector where
  "vector_13 = \<lparr>data_m = \<lparr>buffer_m = 1, capacity_m = 1\<rparr>, size_m = 1\<rparr>"




section \<open>Facts about objects in raw memory\<close>

lemma RawMemory_eta [simp]: "\<lparr>buffer_m = buffer_m r, capacity_m = capacity_m r\<rparr> = r"
  by (cases r) simp

lemma Vector_eta [simp]: "\<lparr>data_m = data_m v, size_m = size_m v\<rparr> = v"
  by (cases v) simp

lemma same_shape_refl [simp]: "same_shape h h"
  by (simp add: same_shape_def)

lemma same_shape_trans: "same_shape h h1 \<Longrightarrow> same_shape h1 h2 \<Longrightarrow> same_shape h h2"
  by (simp add: same_shape_def)

lemma valid_block_len:
  "valid h (a, i) = (a \<noteq> 0 \<and> (case block_len h a of None \<Rightarrow> False | Some n \<Rightarrow> i < n))"
  by (simp add: block_len_def split: option.splits)

lemma load_valid: "load h p = Some x \<Longrightarrow> valid h p"
  by (cases p) (simp split: option.splits if_splits)

lemma shape_store [simp]: "same_shape h (store h p v)"
  by (cases p) (auto simp: same_shape_def block_len_def fun_eq_iff split: option.splits)

lemma load_store: "load (store h p v) q = (if q = p \<and> valid h p then v else load h q)"
  by (cases p; cases q) (auto split: option.splits)

declare valid.simps [simp del] load.simps [simp del] store.simps [simp del]

lemma same_shape_valid: "same_shape h h' \<Longrightarrow> valid h' p = valid h p"
  by (cases p) (simp add: valid_block_len same_shape_def)

lemma same_shape_store2: "same_shape h h1 \<Longrightarrow> same_shape h (store h1 p v)"
  using same_shape_trans shape_store by blast

lemma construct_at_Ok:
  assumes "construct_at h p arg = Ok h' u"
  shows "valid h p" and "same_shape h h'" and "\<exists>x. arg = Some x"
    and "load h' q = (if q = p then arg else load h q)"
  using assms by (auto simp: construct_at_def load_store split: if_splits option.splits)

lemma construct_at_Throw:
  assumes "construct_at h p arg = Throw e h'"
  shows "h' = h" and "arg = None" and "e = T_exception"
  using assms by (auto simp: construct_at_def split: if_splits option.splits)

lemma destroy_at_Some:
  assumes "destroy_at h p = Some h'"
  shows "load h p \<noteq> None" and "same_shape h h'"
    and "load h' q = (if q = p then None else load h q)"
  using assms by (auto simp: destroy_at_def load_store load_valid split: option.splits)


lemma copy_construct_Ok:
  assumes "copy_construct T h p q = Ok h' u"
  shows "valid h p" and "same_shape h h'" and "\<exists>x. load h q = Some x \<and> \<not> copy_throws T x"
    and "load h' r = (if r = p then load h q else load h r)"
  using assms
  by (auto simp: copy_construct_def copy_ctor_def construct_at_def load_store split: option.splits if_splits)

lemma copy_construct_Throw:
  assumes "copy_construct T h p q = Throw e h'"
  shows "h' = h" and "e = T_exception" and "\<exists>x. load h q = Some x \<and> copy_throws T x"
  using assms
  by (auto simp: copy_construct_def copy_ctor_def construct_at_def split: option.splits if_splits)

lemma move_construct_Ok:
  assumes "move_construct T h p q = Ok h' u"
  shows "valid h p" and "same_shape h h'" and "load h q \<noteq> None"
    and "load h' r = (if r = q then map_option (moved_from T) (load h q)
                      else if r = p then load h q else load h r)"
  using assms
  by (auto simp: move_construct_def move_ctor_def load_store same_shape_store2 same_shape_valid
      load_valid construct_at_def split: option.splits outcome.splits if_splits)

lemma move_construct_Throw:
  assumes "move_construct T h p q = Throw e h'"
  shows "h' = h" and "\<not> is_nothrow_move_constructible T" and "e = T_exception"
  using assms
  by (auto simp: move_construct_def move_ctor_def construct_at_def
      split: option.splits outcome.splits if_splits)


lemma move_assign_value_Throw:
  assumes "move_assign_value T h p x = Throw e h'"
  shows "h' = h" and "e = T_exception"
  using assms by (auto simp: move_assign_value_def split: option.splits if_splits)


lemma move_assign_Throw:
  assumes "move_assign T h p q = Throw e h'"
  shows "h' = h" and "e = T_exception"
  using assms
  by (auto simp: move_assign_def move_assign_value_def split: option.splits outcome.splits if_splits)

lemma copy_assign_Ok:
  assumes "copy_assign T h p q = Ok h' u"
  shows "load h p \<noteq> None" and "same_shape h h'" and "load h q \<noteq> None"
    and "load h' r = (if r = p then load h q else load h r)"
  using assms
  by (auto simp: copy_assign_def load_store load_valid split: option.splits if_splits)

lemma copy_assign_Throw:
  assumes "copy_assign T h p q = Throw e h'"
  shows "h' = h" and "e = T_exception"
  using assms by (auto simp: copy_assign_def split: option.splits if_splits)


lemma operator_new_Ok:
  assumes "operator_new h n = Ok h' a"
  shows "a = next_addr h" and "n \<le> mem_limit h" and "next_addr h' = Suc (next_addr h)"
    and "mem_limit h' = mem_limit h" and "block_len h' = (block_len h)(a := Some n)"
    and "load h' (b, j) = (if b = a then None else load h (b, j))"
  using assms
  by (auto simp: operator_new_def block_len_def fun_eq_iff load.simps split: if_splits)

lemma operator_new_Throw:
  assumes "operator_new h n = Throw e h'" shows "h' = h" and "e = bad_alloc"
  using assms by (auto simp: operator_new_def split: if_splits)

lemma operator_new_not_Fault [simp]: "operator_new h n \<noteq> Fault"
  by (auto simp: operator_new_def)

lemma operator_delete_Some:
  assumes "operator_delete h a = Some h'"
  shows "next_addr h' = next_addr h" and "mem_limit h' = mem_limit h"
    and "a = 0 \<or> block_len h a \<noteq> None"
    and "block_len h' = (if a = 0 then block_len h else (block_len h)(a := None))"
    and "load h' (b, j) = (if b = a \<and> a \<noteq> 0 then None else load h (b, j))"
  using assms
  by (auto simp: operator_delete_def block_len_def fun_eq_iff load.simps
      split: if_splits option.splits)

section \<open>Facts about the standard algorithms\<close>

lemma destroy_n_Some_aux:
  "destroy_n h (a, i) n = Some h' \<Longrightarrow>
     same_shape h h' \<and> (\<forall>k<n. load h (a, i + k) \<noteq> None) \<and>
     (\<forall>b j. load h' (b, j) = (if b = a \<and> i \<le> j \<and> j < i + n then None else load h (b, j)))"
proof (induction n arbitrary: h i)
  case 0
  then show ?case by auto
next
  case (Suc n)
  from Suc.prems obtain h1 where d: "destroy_at h (a, i) = Some h1"
    and r: "destroy_n h1 (a, Suc i) n = Some h'"
    by (auto split: option.splits)
  note A = destroy_at_Some [OF d]
  note IH = Suc.IH [OF r]
  note B1 = IH [THEN conjunct1]
  note B2 = IH [THEN conjunct2, THEN conjunct1, rule_format]
  note B3 = IH [THEN conjunct2, THEN conjunct2, rule_format]
  have 1: "same_shape h h'" using A(2) B1 same_shape_trans by blast
  have 2: "load h (a, i + k) \<noteq> None" if "k < Suc n" for k
  proof (cases k)
    case 0 then show ?thesis using A(1) by simp
  next
    case (Suc k')
    then have "load h1 (a, Suc i + k') \<noteq> None" using B2 that by simp
    then show ?thesis using Suc by (simp add: A(3))
  qed
  have 3: "load h' (b, j) = (if b = a \<and> i \<le> j \<and> j < i + Suc n then None else load h (b, j))" for b j
    by (simp add: B3 A(3)) arith
  show ?case by (intro conjI allI impI) (rule 1, erule 2, rule 3)
qed

lemma destroy_n_Some:
  assumes "destroy_n h (a, i) n = Some h'"
  shows "same_shape h h'" and "k < n \<Longrightarrow> load h (a, i + k) \<noteq> None"
    and "load h' (b, j) = (if b = a \<and> i \<le> j \<and> j < i + n then None else load h (b, j))"
  using destroy_n_Some_aux [OF assms] by simp_all


lemma uninitialized_copy_loop_Ok_aux:
  "uninitialized_copy_loop T h (sa, si) (da, di) k n = Ok h' u \<Longrightarrow>
     same_shape h h' \<and>
     (\<forall>j. k \<le> j \<and> j < k + n \<longrightarrow>
          valid h (da, di + j) \<and> (sa \<noteq> da \<longrightarrow> (\<exists>x. load h (sa, si + j) = Some x \<and> \<not> copy_throws T x))) \<and>
     (sa \<noteq> da \<longrightarrow> (\<forall>b j. load h' (b, j) = (if b = da \<and> di + k \<le> j \<and> j < di + k + n
                        then load h (sa, si + (j - di)) else load h (b, j))))"
proof (induction n arbitrary: h k)
  case 0
  then show ?case by auto
next
  case (Suc n)
  from Suc.prems(1) obtain h1 u1 where c: "copy_construct T h (da, di + k) (sa, si + k) = Ok h1 u1"
    and r: "uninitialized_copy_loop T h1 (sa, si) (da, di) (Suc k) n = Ok h' u"
    by (auto split: outcome.splits option.splits)
  note A = copy_construct_Ok [OF c]
  note IH = Suc.IH [OF r]
  note B1 = IH [THEN conjunct1]
  have B2: "valid h1 (da, di + j)" if "Suc k \<le> j" "j < Suc k + n" for j
    using IH [THEN conjunct2, THEN conjunct1, rule_format, of j] that by simp
  have B2': "\<exists>x. load h1 (sa, si + j) = Some x \<and> \<not> copy_throws T x"
    if "Suc k \<le> j" "j < Suc k + n" "sa \<noteq> da" for j
    using IH [THEN conjunct2, THEN conjunct1, rule_format, of j] that by simp
  note B3 = IH [THEN conjunct2, THEN conjunct2, rule_format]
  have 1: "same_shape h h'" using A(2) B1 same_shape_trans by blast
  have 2: "valid h (da, di + j) \<and> (sa \<noteq> da \<longrightarrow> (\<exists>x. load h (sa, si + j) = Some x \<and> \<not> copy_throws T x))"
    if j: "k \<le> j \<and> j < k + Suc n" for j
  proof (cases "j = k")
    case True
    then show ?thesis using A(1) A(3) by auto
  next
    case False
    then have jj: "Suc k \<le> j" "j < Suc k + n" using j by arith+
    have "valid h (da, di + j)" using B2 [OF jj] same_shape_valid [OF A(2)] by simp
    moreover have "\<exists>x. load h (sa, si + j) = Some x \<and> \<not> copy_throws T x" if "sa \<noteq> da"
      using B2' [OF jj that] that by (simp add: A(4))
    ultimately show ?thesis by blast
  qed
  have 3: "load h' (b, j) = (if b = da \<and> di + k \<le> j \<and> j < di + k + Suc n
                        then load h (sa, si + (j - di)) else load h (b, j))" if ne: "sa \<noteq> da" for b j
  proof (cases "b = da \<and> j = di + k")
    case True
    then show ?thesis using ne by (simp add: B3 A(4))
  next
    case False
    then show ?thesis using ne by (auto simp add: B3 A(4))
  qed
  show ?case
  proof (intro conjI allI impI)
    show "same_shape h h'" by (rule 1)
  next
    fix j assume "k \<le> j \<and> j < k + Suc n"
    from 2 [OF this] show "valid h (da, di + j)" by simp
  next
    fix j assume "k \<le> j \<and> j < k + Suc n" "sa \<noteq> da"
    with 2 [of j] show "\<exists>x. load h (sa, si + j) = Some x \<and> \<not> copy_throws T x" by simp
  next
    fix b j assume "sa \<noteq> da"
    from 3 [OF this] show "load h' (b, j) = (if b = da \<and> di + k \<le> j \<and> j < di + k + Suc n
                        then load h (sa, si + (j - di)) else load h (b, j))" .
  qed
qed

lemma uninitialized_copy_loop_Ok:
  assumes "uninitialized_copy_loop T h (sa, si) (da, di) k n = Ok h' u"
  shows "same_shape h h'"
    and "k \<le> j \<Longrightarrow> j < k + n \<Longrightarrow> valid h (da, di + j)"
    and "k \<le> j \<Longrightarrow> j < k + n \<Longrightarrow> sa \<noteq> da \<Longrightarrow> \<exists>x. load h (sa, si + j) = Some x \<and> \<not> copy_throws T x"
    and "sa \<noteq> da \<Longrightarrow> load h' (b, i) = (if b = da \<and> di + k \<le> i \<and> i < di + k + n
                        then load h (sa, si + (i - di)) else load h (b, i))"
  using uninitialized_copy_loop_Ok_aux [OF assms] by simp_all

lemma uninitialized_copy_loop_Throw_aux:
  "uninitialized_copy_loop T h (sa, si) (da, di) k n = Throw e h' \<Longrightarrow>
     same_shape h h' \<and> (\<forall>b j. b \<noteq> da \<longrightarrow> load h' (b, j) = load h (b, j)) \<and> e = T_exception"
proof (induction n arbitrary: h k)
  case 0
  then show ?case by simp
next
  case (Suc n)
  show ?case
  proof (cases "copy_construct T h (da, di + k) (sa, si + k)")
    case (Ok h1 u1)
    then have r: "uninitialized_copy_loop T h1 (sa, si) (da, di) (Suc k) n = Throw e h'"
      using Suc.prems by simp
    note A = copy_construct_Ok [OF Ok]
    note IH = Suc.IH [OF r]
    note B1 = IH [THEN conjunct1]
    note B2 = IH [THEN conjunct2, THEN conjunct1, rule_format]
    note B3 = IH [THEN conjunct2, THEN conjunct2]
    have "same_shape h h'" using A(2) B1 same_shape_trans by blast
    moreover have "load h' (b, j) = load h (b, j)" if "b \<noteq> da" for b j
      using that by (simp add: B2 A(4))
    ultimately show ?thesis using B3 by simp
  next
    case (Throw e1 h1)
    then obtain h2 where d: "destroy_n h1 (da, di) k = Some h2" and e: "h' = h2" "e = e1"
      using Suc.prems by (auto split: option.splits)
    note A = copy_construct_Throw [OF Throw]
    note D = destroy_n_Some [OF d]
    show ?thesis using A(1,2) D(1) e by (simp add: D(3))
  next
    case Fault
    then show ?thesis using Suc.prems by simp
  qed
qed

lemma uninitialized_copy_loop_Throw:
  assumes "uninitialized_copy_loop T h (sa, si) (da, di) k n = Throw e h'"
  shows "same_shape h h'" and "b \<noteq> da \<Longrightarrow> load h' (b, j) = load h (b, j)" and "e = T_exception"
  using uninitialized_copy_loop_Throw_aux [OF assms] by simp_all

lemma uninitialized_move_loop_Ok_aux:
  "uninitialized_move_loop T h (sa, si) (da, di) k n = Ok h' u \<Longrightarrow>
     same_shape h h' \<and>
     (\<forall>j. k \<le> j \<and> j < k + n \<longrightarrow>
          valid h (da, di + j) \<and> (sa \<noteq> da \<longrightarrow> load h (sa, si + j) \<noteq> None)) \<and>
     (sa \<noteq> da \<longrightarrow> (\<forall>b j. load h' (b, j) =
          (if b = da \<and> di + k \<le> j \<and> j < di + k + n then load h (sa, si + (j - di))
           else if b = sa \<and> si + k \<le> j \<and> j < si + k + n
                then map_option (moved_from T) (load h (b, j))
           else load h (b, j))))"
proof (induction n arbitrary: h k)
  case 0
  then show ?case by auto
next
  case (Suc n)
  from Suc.prems(1) obtain h1 u1 where c: "move_construct T h (da, di + k) (sa, si + k) = Ok h1 u1"
    and r: "uninitialized_move_loop T h1 (sa, si) (da, di) (Suc k) n = Ok h' u"
    by (auto split: outcome.splits option.splits)
  note A = move_construct_Ok [OF c]
  note IH = Suc.IH [OF r]
  note B1 = IH [THEN conjunct1]
  have B2: "valid h1 (da, di + j)" if "Suc k \<le> j" "j < Suc k + n" for j
    using IH [THEN conjunct2, THEN conjunct1, rule_format, of j] that by simp
  have B2': "load h1 (sa, si + j) \<noteq> None"
    if "Suc k \<le> j" "j < Suc k + n" "sa \<noteq> da" for j
    using IH [THEN conjunct2, THEN conjunct1, rule_format, of j] that by simp
  note B3 = IH [THEN conjunct2, THEN conjunct2, rule_format]
  have 1: "same_shape h h'" using A(2) B1 by (rule same_shape_trans)
  have 2: "valid h (da, di + j) \<and> (sa \<noteq> da \<longrightarrow> load h (sa, si + j) \<noteq> None)"
    if j: "k \<le> j \<and> j < k + Suc n" for j
  proof (cases "j = k")
    case True
    then show ?thesis using A(1) A(3) by auto
  next
    case False
    then have jj: "Suc k \<le> j" "j < Suc k + n" using j by arith+
    have "valid h (da, di + j)" using B2 [OF jj] same_shape_valid [OF A(2)] by simp
    moreover have "load h (sa, si + j) \<noteq> None" if "sa \<noteq> da"
      using B2' [OF jj that] that False by (simp add: A(4))
    ultimately show ?thesis by blast
  qed
  have 3: "load h' (b, j) =
          (if b = da \<and> di + k \<le> j \<and> j < di + k + Suc n then load h (sa, si + (j - di))
           else if b = sa \<and> si + k \<le> j \<and> j < si + k + Suc n
                then map_option (moved_from T) (load h (b, j))
           else load h (b, j))" if ne: "sa \<noteq> da" for b j
  proof -
    consider "b = da" "j = di + k" | "b = sa" "j = si + k" | "(b, j) \<noteq> (da, di + k)" "(b, j) \<noteq> (sa, si + k)"
      by auto
    then show ?thesis
    proof cases
      case 1
      then show ?thesis using ne by (simp add: B3 A(4))
    next
      case 2
      then show ?thesis using ne by (simp add: B3 A(4))
    next
      case 3
      then show ?thesis using ne by (auto simp add: B3 A(4))
    qed
  qed
  show ?case
  proof (intro conjI allI impI)
    show "same_shape h h'" by (rule 1)
  next
    fix j assume "k \<le> j \<and> j < k + Suc n"
    from 2 [OF this] show "valid h (da, di + j)" by simp
  next
    fix j assume "k \<le> j \<and> j < k + Suc n" "sa \<noteq> da"
    with 2 [of j] show "load h (sa, si + j) \<noteq> None" by simp
  next
    fix b j assume "sa \<noteq> da"
    from 3 [OF this] show "load h' (b, j) =
          (if b = da \<and> di + k \<le> j \<and> j < di + k + Suc n then load h (sa, si + (j - di))
           else if b = sa \<and> si + k \<le> j \<and> j < si + k + Suc n
                then map_option (moved_from T) (load h (b, j))
           else load h (b, j))" .
  qed
qed

lemma uninitialized_move_loop_Ok:
  assumes "uninitialized_move_loop T h (sa, si) (da, di) k n = Ok h' u"
  shows "same_shape h h'"
    and "k \<le> j \<Longrightarrow> j < k + n \<Longrightarrow> valid h (da, di + j)"
    and "k \<le> j \<Longrightarrow> j < k + n \<Longrightarrow> sa \<noteq> da \<Longrightarrow> load h (sa, si + j) \<noteq> None"
    and "sa \<noteq> da \<Longrightarrow> load h' (b, i) =
          (if b = da \<and> di + k \<le> i \<and> i < di + k + n then load h (sa, si + (i - di))
           else if b = sa \<and> si + k \<le> i \<and> i < si + k + n
                then map_option (moved_from T) (load h (b, i))
           else load h (b, i))"
  using uninitialized_move_loop_Ok_aux [OF assms] by simp_all

lemma uninitialized_move_loop_Throw_aux:
  "uninitialized_move_loop T h (sa, si) (da, di) k n = Throw e h' \<Longrightarrow>
     same_shape h h' \<and> (\<forall>b j. b \<noteq> da \<and> b \<noteq> sa \<longrightarrow> load h' (b, j) = load h (b, j)) \<and>
     e = T_exception \<and> \<not> is_nothrow_move_constructible T"
proof (induction n arbitrary: h k)
  case 0
  then show ?case by simp
next
  case (Suc n)
  show ?case
  proof (cases "move_construct T h (da, di + k) (sa, si + k)")
    case (Ok h1 u1)
    then have r: "uninitialized_move_loop T h1 (sa, si) (da, di) (Suc k) n = Throw e h'"
      using Suc.prems by simp
    note A = move_construct_Ok [OF Ok]
    note IH = Suc.IH [OF r]
    note B1 = IH [THEN conjunct1]
    note B2 = IH [THEN conjunct2, THEN conjunct1, rule_format]
    note B3 = IH [THEN conjunct2, THEN conjunct2]
    have "same_shape h h'" using A(2) B1 by (rule same_shape_trans)
    moreover have "load h' (b, j) = load h (b, j)" if "b \<noteq> da \<and> b \<noteq> sa" for b j
      using that by (simp add: B2 A(4))
    ultimately show ?thesis using B3 by simp
  next
    case (Throw e1 h1)
    then obtain h2 where d: "destroy_n h1 (da, di) k = Some h2" and e: "h' = h2" "e = e1"
      using Suc.prems by (auto split: option.splits)
    note A = move_construct_Throw [OF Throw]
    note D = destroy_n_Some [OF d]
    show ?thesis using A D(1) e by (simp add: D(3))
  next
    case Fault
    then show ?thesis using Suc.prems by simp
  qed
qed

lemma uninitialized_move_loop_Throw:
  assumes "uninitialized_move_loop T h (sa, si) (da, di) k n = Throw e h'"
  shows "same_shape h h'" and "b \<noteq> da \<Longrightarrow> b \<noteq> sa \<Longrightarrow> load h' (b, j) = load h (b, j)"
    and "e = T_exception" and "\<not> is_nothrow_move_constructible T"
  using uninitialized_move_loop_Throw_aux [OF assms] by simp_all

text \<open>The transfer of \<open>Reserve\<close>, \<open>EmplaceBack\<close> and \<open>Emplace\<close>, whichever constructor it uses.\<close>

lemma transfer_n_Ok:
  assumes "transfer_n T h (sa, si) n (da, di) = Ok h' u"
  shows "same_shape h h'"
    and "j < n \<Longrightarrow> valid h (da, di + j)"
    and "j < n \<Longrightarrow> sa \<noteq> da \<Longrightarrow> load h (sa, si + j) \<noteq> None"
    and "sa \<noteq> da \<Longrightarrow> load h' (da, i) =
          (if di \<le> i \<and> i < di + n then load h (sa, si + (i - di)) else load h (da, i))"
    and "sa \<noteq> da \<Longrightarrow> (load h' (sa, i) = None) = (load h (sa, i) = None)"
    and "sa \<noteq> da \<Longrightarrow> b \<noteq> sa \<Longrightarrow> b \<noteq> da \<Longrightarrow> load h' (b, i) = load h (b, i)"
proof -
  show "same_shape h h'"
    using assms uninitialized_move_loop_Ok(1) uninitialized_copy_loop_Ok(1)
    by (auto simp: transfer_n_def uninitialized_move_n_def uninitialized_copy_n_def split: if_splits)
  show "j < n \<Longrightarrow> valid h (da, di + j)"
    using assms uninitialized_move_loop_Ok(2) [of T h sa si da di 0 n h' u j]
      uninitialized_copy_loop_Ok(2) [of T h sa si da di 0 n h' u j]
    by (auto simp: transfer_n_def uninitialized_move_n_def uninitialized_copy_n_def split: if_splits)
  show "j < n \<Longrightarrow> sa \<noteq> da \<Longrightarrow> load h (sa, si + j) \<noteq> None"
    using assms uninitialized_move_loop_Ok(3) [of T h sa si da di 0 n h' u j]
      uninitialized_copy_loop_Ok(3) [of T h sa si da di 0 n h' u j]
    by (auto simp: transfer_n_def uninitialized_move_n_def uninitialized_copy_n_def split: if_splits)
  show "sa \<noteq> da \<Longrightarrow> load h' (da, i) =
          (if di \<le> i \<and> i < di + n then load h (sa, si + (i - di)) else load h (da, i))"
    using assms uninitialized_move_loop_Ok(4) [of T h sa si da di 0 n h' u da i]
      uninitialized_copy_loop_Ok(4) [of T h sa si da di 0 n h' u da i]
    by (auto simp: transfer_n_def uninitialized_move_n_def uninitialized_copy_n_def split: if_splits)
  show "sa \<noteq> da \<Longrightarrow> (load h' (sa, i) = None) = (load h (sa, i) = None)"
    using assms uninitialized_move_loop_Ok(4) [of T h sa si da di 0 n h' u sa i]
      uninitialized_copy_loop_Ok(4) [of T h sa si da di 0 n h' u sa i]
    by (auto simp: transfer_n_def uninitialized_move_n_def uninitialized_copy_n_def split: if_splits)
  show "sa \<noteq> da \<Longrightarrow> b \<noteq> sa \<Longrightarrow> b \<noteq> da \<Longrightarrow> load h' (b, i) = load h (b, i)"
    using assms uninitialized_move_loop_Ok(4) [of T h sa si da di 0 n h' u b i]
      uninitialized_copy_loop_Ok(4) [of T h sa si da di 0 n h' u b i]
    by (auto simp: transfer_n_def uninitialized_move_n_def uninitialized_copy_n_def split: if_splits)
qed

lemma transfer_n_Throw:
  assumes "transfer_n T h (sa, si) n (da, di) = Throw e h'"
  shows "same_shape h h'"
    and "b \<noteq> sa \<Longrightarrow> b \<noteq> da \<Longrightarrow> load h' (b, i) = load h (b, i)"
    and "\<not> is_nothrow_move_constructible T \<Longrightarrow> is_copy_constructible T \<Longrightarrow> b \<noteq> da \<Longrightarrow>
           load h' (b, i) = load h (b, i)"
    and "e = T_exception"
  using assms uninitialized_move_loop_Throw [of T h sa si da di 0 n e h']
    uninitialized_copy_loop_Throw [of T h sa si da di 0 n e h']
  by (auto simp: transfer_n_def uninitialized_move_n_def uninitialized_copy_n_def split: if_splits)

section \<open>The cases of RawMemory, Reserve, EmplaceBack and Emplace\<close>

lemma RawMemory_ctor_Ok:
  assumes "RawMemory_ctor h n = Ok h1 d"
  shows "capacity_m d = n"
    and "n \<noteq> 0 \<Longrightarrow> n \<le> mem_limit h"
    and "buffer_m d = (if n = 0 then 0 else next_addr h)"
    and "next_addr h1 = (if n = 0 then next_addr h else Suc (next_addr h))"
    and "mem_limit h1 = mem_limit h"
    and "block_len h1 = (if n = 0 then block_len h else (block_len h)(next_addr h := Some n))"
    and "load h1 (b, j) = (if n \<noteq> 0 \<and> b = next_addr h then None else load h (b, j))"
  using assms
  by (auto simp: RawMemory_ctor_def Allocate_def operator_new_Ok split: outcome.splits if_splits
      dest: operator_new_Ok(1))

lemma RawMemory_ctor_Throw:
  assumes "RawMemory_ctor h n = Throw e h1" shows "h1 = h" and "e = bad_alloc"
  using assms
  by (auto simp: RawMemory_ctor_def Allocate_def operator_new_Throw split: outcome.splits if_splits)

lemma RawMemory_ctor_not_Fault [simp]: "RawMemory_ctor h n \<noteq> Fault"
  by (auto simp: RawMemory_ctor_def Allocate_def split: outcome.splits)

lemma RawMemory_dtor_Some:
  assumes "RawMemory_dtor h d = Some h'"
  shows "next_addr h' = next_addr h" and "mem_limit h' = mem_limit h"
    and "buffer_m d = 0 \<or> block_len h (buffer_m d) \<noteq> None"
    and "block_len h' = (if buffer_m d = 0 then block_len h else (block_len h)(buffer_m d := None))"
    and "load h' (b, j) = (if b = buffer_m d \<and> b \<noteq> 0 then None else load h (b, j))"
  using assms operator_delete_Some [of h "buffer_m d" h']
  by (auto simp: RawMemory_dtor_def Deallocate_def)

lemma adopt_Some:
  assumes "adopt h this nd = Some (h', v')"
  obtains h1 where "destroy_n h (buffer_m (data_m this), 0) (size_m this) = Some h1"
    and "RawMemory_dtor h1 (data_m this) = Some h'" and "v' = this\<lparr>data_m := nd\<rparr>"
  using assms
  by (auto simp: adopt_def GetAddress_def RawMemory_Swap_def split: option.splits)

lemma unwind_Throw:
  assumes "unwind e h this nd = Throw e' (h', v')"
  shows "RawMemory_dtor h nd = Some h'" and "v' = this" and "e' = e"
  using assms by (auto simp: unwind_def split: option.splits)

lemma unwind_not_Ok [simp]: "unwind e h this nd \<noteq> Ok s r"
  by (auto simp: unwind_def split: option.splits)

lemma Reserve_Ok_cases:
  assumes "Reserve T h this n = Ok (h', v') u"
  obtains (noop) "n \<le> capacity_m (data_m this)" "h' = h" "v' = this"
  | (grow) h1 nd h2 where "capacity_m (data_m this) < n" "RawMemory_ctor h n = Ok h1 nd"
      "transfer_n T h1 (buffer_m (data_m this), 0) (size_m this) (buffer_m nd, 0) = Ok h2 ()"
      "adopt h2 this nd = Some (h', v')"
  using assms
  by (auto simp: Reserve_def RawMemory_Capacity_def GetAddress_def
      split: if_splits outcome.splits option.splits)

lemma appended_Ok:
  assumes "appended h this = Ok (h', v') r"
  shows "h' = h" and "v' = this\<lparr>size_m := size_m this + 1\<rparr>"
    and "size_m this < capacity_m (data_m this)" and "r = (buffer_m (data_m this), size_m this)"
  using assms by (auto simp: appended_def RawMemory_index_def split: option.splits if_splits)

lemma appended_not_Throw [simp]: "appended h this \<noteq> Throw e s"
  by (auto simp: appended_def split: option.splits)

lemma EmplaceBack_Ok_cases:
  assumes "EmplaceBack T h this arg = Ok (h', v') r"
  obtains (inplace) h1 where "size_m this \<noteq> capacity_m (data_m this)"
      "size_m this \<le> capacity_m (data_m this)"
      "construct_at h (buffer_m (data_m this), size_m this) arg = Ok h1 ()"
      "appended h1 this = Ok (h', v') r"
  | (grow) h1 nd h2 h3 h4 v4 where "size_m this = capacity_m (data_m this)"
      "RawMemory_ctor h (capacity_tmp this) = Ok h1 nd"
      "size_m this \<le> capacity_m nd"
      "construct_at h1 (buffer_m nd, size_m this) arg = Ok h2 ()"
      "transfer_n T h2 (buffer_m (data_m this), 0) (size_m this) (buffer_m nd, 0) = Ok h3 ()"
      "adopt h3 this nd = Some (h4, v4)"
      "appended h4 v4 = Ok (h', v') r"
  using assms
  by (auto simp: EmplaceBack_def Capacity_def RawMemory_Capacity_def GetAddress_def capacity_tmp_def
      RawMemory_plus_def
      split: if_splits outcome.splits option.splits)

lemma Reserve_Throw_cases:
  assumes "Reserve T h this n = Throw e (h', v')"
  obtains (alloc) "capacity_m (data_m this) < n" "RawMemory_ctor h n = Throw e h'" "v' = this"
  | (transfer) h1 nd h2 where "capacity_m (data_m this) < n" "RawMemory_ctor h n = Ok h1 nd"
      "transfer_n T h1 (buffer_m (data_m this), 0) (size_m this) (buffer_m nd, 0) = Throw e h2"
      "RawMemory_dtor h2 nd = Some h'" "v' = this"
proof -
  have "capacity_m (data_m this) < n \<and> v' = this \<and> (RawMemory_ctor h n = Throw e h' \<or>
     (\<exists>h1 nd h2. RawMemory_ctor h n = Ok h1 nd \<and>
      transfer_n T h1 (buffer_m (data_m this), 0) (size_m this) (buffer_m nd, 0) = Throw e h2 \<and>
      RawMemory_dtor h2 nd = Some h'))"
    using assms
    by (simp add: Reserve_def RawMemory_Capacity_def GetAddress_def unwind_def
        split: if_splits outcome.splits option.splits)
  then show thesis using alloc transfer by blast
qed

lemma EmplaceBack_Throw_cases:
  assumes "EmplaceBack T h this arg = Throw e (h', v')"
  obtains (inplace) "size_m this \<noteq> capacity_m (data_m this)"
      "construct_at h (buffer_m (data_m this), size_m this) arg = Throw e h'" "v' = this"
  | (alloc) "size_m this = capacity_m (data_m this)"
      "RawMemory_ctor h (capacity_tmp this) = Throw e h'" "v' = this"
  | (ctor) h1 nd h2 where "size_m this = capacity_m (data_m this)"
      "RawMemory_ctor h (capacity_tmp this) = Ok h1 nd"
      "construct_at h1 (buffer_m nd, size_m this) arg = Throw e h2"
      "RawMemory_dtor h2 nd = Some h'" "v' = this"
  | (transfer) h1 nd h2 h3 where "size_m this = capacity_m (data_m this)"
      "RawMemory_ctor h (capacity_tmp this) = Ok h1 nd"
      "construct_at h1 (buffer_m nd, size_m this) arg = Ok h2 ()"
      "transfer_n T h2 (buffer_m (data_m this), 0) (size_m this) (buffer_m nd, 0) = Throw e h3"
      "RawMemory_dtor h3 nd = Some h'" "v' = this"
proof -
  have "v' = this \<and>
    (size_m this \<noteq> capacity_m (data_m this) \<and>
       construct_at h (buffer_m (data_m this), size_m this) arg = Throw e h' \<or>
     size_m this = capacity_m (data_m this) \<and>
      (RawMemory_ctor h (capacity_tmp this) = Throw e h' \<or>
       (\<exists>h1 nd h2. RawMemory_ctor h (capacity_tmp this) = Ok h1 nd \<and>
          (construct_at h1 (buffer_m nd, size_m this) arg = Throw e h2 \<and>
             RawMemory_dtor h2 nd = Some h' \<or>
           construct_at h1 (buffer_m nd, size_m this) arg = Ok h2 () \<and>
           (\<exists>h3. transfer_n T h2 (buffer_m (data_m this), 0) (size_m this) (buffer_m nd, 0) = Throw e h3 \<and>
             RawMemory_dtor h3 nd = Some h')))))"
    using assms
    by (auto simp add: EmplaceBack_def Capacity_def RawMemory_Capacity_def GetAddress_def capacity_tmp_def
      RawMemory_plus_def Let_def unwind_def
      split: if_splits outcome.splits option.splits prod.splits)
  then show thesis using inplace alloc ctor transfer by blast
qed

lemma Emplace_Ok_cases:
  assumes "Emplace T h this result arg = Ok (h', v') r"
  obtains (at_end) r' where "size_m this = result" "EmplaceBack T h this arg = Ok (h', v') r'"
      "r = (buffer_m (data_m v'), result)"
  | (shift) tmp h1 h2 where "result < size_m this" "size_m this < capacity_m (data_m this)"
      "arg = Some tmp"
      "move_construct T h (buffer_m (data_m this), size_m this)
         (buffer_m (data_m this), size_m this - 1) = Ok h1 ()"
      "std_move_backward T h1 (buffer_m (data_m this)) result (size_m this - 1) (size_m this) = Ok h2 ()"
      "move_assign_value T h2 (buffer_m (data_m this), result) tmp = Ok h' ()"
      "v' = this\<lparr>size_m := size_m this + 1\<rparr>" "r = (buffer_m (data_m this), result)"
  | (grow) h1 nd h2 h3 h4 v5 where "result < size_m this"
      "\<not> size_m this < capacity_m (data_m this)"
      "RawMemory_ctor h ((size_m this * 2) mod 2 ^ 64) = Ok h1 nd"
      "result \<le> capacity_m nd"
      "construct_at h1 (buffer_m nd, result) arg = Ok h2 ()"
      "transfer_n T h2 (buffer_m (data_m this), 0) result (buffer_m nd, 0) = Ok h3 ()"
      "transfer_n T h3 (buffer_m (data_m this), result) (size_m this - result)
         (buffer_m nd, Suc result) = Ok h4 ()"
      "adopt h4 this nd = Some (h', v5)"
      "v' = v5\<lparr>size_m := size_m v5 + 1\<rparr>" "r = (buffer_m (data_m v5), result)"
proof -
  have "(size_m this = result \<and> (\<exists>r'. EmplaceBack T h this arg = Ok (h', v') r') \<and>
           r = (buffer_m (data_m v'), result)) \<or>
    (result < size_m this \<and> size_m this < capacity_m (data_m this) \<and>
      (\<exists>tmp h1 h2. arg = Some tmp \<and>
      move_construct T h (buffer_m (data_m this), size_m this)
         (buffer_m (data_m this), size_m this - 1) = Ok h1 () \<and>
      std_move_backward T h1 (buffer_m (data_m this)) result (size_m this - 1) (size_m this) = Ok h2 () \<and>
      move_assign_value T h2 (buffer_m (data_m this), result) tmp = Ok h' () \<and>
      v' = this\<lparr>size_m := size_m this + 1\<rparr> \<and> r = (buffer_m (data_m this), result))) \<or>
    (result < size_m this \<and> \<not> size_m this < capacity_m (data_m this) \<and>
      (\<exists>h1 nd h2 h3 h4 v5. RawMemory_ctor h ((size_m this * 2) mod 2 ^ 64) = Ok h1 nd \<and>
      result \<le> capacity_m nd \<and>
      construct_at h1 (buffer_m nd, result) arg = Ok h2 () \<and>
      transfer_n T h2 (buffer_m (data_m this), 0) result (buffer_m nd, 0) = Ok h3 () \<and>
      transfer_n T h3 (buffer_m (data_m this), result) (size_m this - result)
         (buffer_m nd, Suc result) = Ok h4 () \<and>
      adopt h4 this nd = Some (h', v5) \<and>
      v' = v5\<lparr>size_m := size_m v5 + 1\<rparr> \<and> r = (buffer_m (data_m v5), result)))"
    using assms
    by (auto simp add: Emplace_def Capacity_def RawMemory_Capacity_def GetAddress_def
        RawMemory_plus_def RawMemory_index_def
        split: if_splits outcome.splits option.splits prod.splits)
  then show thesis using at_end shift grow by blast
qed


lemma valid_null [simp]: "\<not> valid h (0, i)"
  by (simp add: valid_block_len)

lemma load_null [simp]: "load h (0, i) = None"
  by (simp add: load.simps)

section \<open>What the methods do to the members\<close>

text \<open>The size and the capacity after each method, whatever the heap.\<close>

lemma Reserve_Ok_members:
  assumes "Reserve T h this n = Ok (h', v') u"
  shows "size_m v' = size_m this" and "capacity_m (data_m this) \<le> capacity_m (data_m v')"
    and "n \<le> capacity_m (data_m v')"
  using assms
  by (auto elim!: Reserve_Ok_cases adopt_Some simp: RawMemory_ctor_Ok(1))

lemma Reserve_Throw_members: "Reserve T h this n = Throw e (h', v') \<Longrightarrow> v' = this"
  by (auto elim!: Reserve_Throw_cases)

lemma appended_OkD:
  "appended h this = Ok (h', v') r \<Longrightarrow>
     h' = h \<and> v' = this\<lparr>size_m := size_m this + 1\<rparr> \<and>
     size_m this < capacity_m (data_m this) \<and> r = (buffer_m (data_m this), size_m this)"
  by (auto simp: appended_def RawMemory_index_def split: option.splits if_splits)

lemma EmplaceBack_Ok_members:
  assumes "EmplaceBack T h this arg = Ok (h', v') r"
  shows "size_m v' = size_m this + 1" and "size_m v' \<le> capacity_m (data_m v')"
    and "r = (buffer_m (data_m v'), size_m v' - 1)"
    and "size_m this \<noteq> capacity_m (data_m this) \<Longrightarrow> data_m v' = data_m this"
    and "size_m this = capacity_m (data_m this) \<Longrightarrow> capacity_m (data_m v') = capacity_tmp this"
  using assms
  by (auto elim!: EmplaceBack_Ok_cases adopt_Some dest!: appended_OkD simp: RawMemory_ctor_Ok(1))

lemma EmplaceBack_Throw_members: "EmplaceBack T h this arg = Throw e (h', v') \<Longrightarrow> v' = this"
  by (auto elim!: EmplaceBack_Throw_cases)

lemma wrapped_pred_le:
  fixes n k :: nat
  assumes "0 < n" and "0 < k"
  shows "(n + (k - 1)) mod k \<le> n - 1"
proof -
  from assms have "n + (k - 1) = (n - 1) + k" by arith
  then have "(n + (k - 1)) mod k = (n - 1) mod k" by (simp only: mod_add_self2)
  then show ?thesis by simp
qed

lemma pre_decrement_le: "0 < n \<Longrightarrow> pre_decrement n \<le> n - 1"
  unfolding pre_decrement_def by (rule wrapped_pred_le) simp_all

lemma PopBack_Ok_members:
  assumes "PopBack T h this = Ok (h', v') u"
  shows "v' = this\<lparr>size_m := pre_decrement (size_m this)\<rparr>"
  using assms by (auto simp: PopBack_def split: if_splits option.splits)

lemma PopBack_not_Throw [simp]: "PopBack T h this \<noteq> Throw e s"
  by (auto simp: PopBack_def split: if_splits option.splits)

lemma Erase_Ok_members:
  assumes "Erase T h this pos = Ok (h', v') r"
  shows "v' = this\<lparr>size_m := size_m this - 1\<rparr>" and "pos < size_m this"
    and "size_m this \<le> capacity_m (data_m this)" and "r = (buffer_m (data_m this), pos)"
  using assms
  by (auto simp: Erase_def RawMemory_plus_def std_move_def split: if_splits option.splits outcome.splits)

lemma Erase_Throw_members: "Erase T h this pos = Throw e (h', v') \<Longrightarrow> v' = this"
  by (auto simp: Erase_def split: if_splits option.splits outcome.splits)

lemma Emplace_Throw_members: "Emplace T h this result arg = Throw e (h', v') \<Longrightarrow> v' = this"
  by (auto simp: Emplace_def unwind_def EmplaceBack_Throw_members
      split: if_splits option.splits outcome.splits prod.splits)

lemma Emplace_Ok_members_aux:
  assumes "Emplace T h this result arg = Ok (h', v') r"
  shows "size_m v' = size_m this + 1 \<and> size_m v' \<le> capacity_m (data_m v') \<and>
    r = (buffer_m (data_m v'), result) \<and> result \<le> size_m this"
  using assms
proof (cases rule: Emplace_Ok_cases)
  case (at_end r')
  then show ?thesis
    using EmplaceBack_Ok_members(1,2) [of T h this arg h' v' r'] by simp
next
  case (shift tmp h1 h2)
  then show ?thesis by simp
next
  case (grow h1 nd h2 h3 h4 v5)
  from grow(8) have v5: "v5 = this\<lparr>data_m := nd\<rparr>" by (auto elim: adopt_Some)
  have "size_m this - result - 1 < size_m this - result" using grow(1) by arith
  from transfer_n_Ok(2) [OF grow(7) this] have "valid h3 (buffer_m nd, size_m this)"
    using grow(1) by simp
  moreover have "block_len h3 = block_len h1"
    using construct_at_Ok(2) [OF grow(5)] transfer_n_Ok(1) [OF grow(6)]
    by (simp add: same_shape_def)
  ultimately have "size_m this < capacity_m nd"
    using RawMemory_ctor_Ok(1,3,6) [OF grow(3)]
    by (auto simp: valid_block_len split: if_splits option.splits)
  then show ?thesis using grow v5 by simp
qed

lemma Emplace_Ok_members:
  assumes "Emplace T h this result arg = Ok (h', v') r"
  shows "size_m v' = size_m this + 1" and "size_m v' \<le> capacity_m (data_m v')"
    and "r = (buffer_m (data_m v'), result)" and "result \<le> size_m this"
  using Emplace_Ok_members_aux [OF assms] by simp_all

section \<open>The size never exceeds the capacity\<close>

lemma Resize_Ok_members:
  assumes "Resize T h this n = Ok (h', v') u"
  shows "size_m v' = n" and "size_m this \<le> capacity_m (data_m this) \<Longrightarrow> n \<le> capacity_m (data_m v')"
  using assms
  by (auto simp: Resize_def Resize_shrink_def Reserve_Ok_members
      split: if_splits option.splits outcome.splits prod.splits)

lemma Resize_Throw_members:
  assumes "Resize T h this n = Throw e (h', v')"
  shows "size_m v' = size_m this" and "capacity_m (data_m this) \<le> capacity_m (data_m v')"
  using assms
  by (auto simp: Resize_def Resize_shrink_def Reserve_Ok_members
      split: if_splits option.splits outcome.splits prod.splits dest: Reserve_Throw_members)

lemma Vector_sized_Ok_members:
  assumes "Vector_sized T h n = Ok h' v" shows "size_m v = n" and "capacity_m (data_m v) = n"
  using assms
  by (auto simp: Vector_sized_def RawMemory_ctor_Ok(1) split: option.splits outcome.splits)

lemma Vector_copy_Ok_members:
  assumes "Vector_copy T h other = Ok h' v"
  shows "size_m v = size_m other" and "capacity_m (data_m v) = size_m other"
  using assms
  by (auto simp: Vector_copy_def RawMemory_ctor_Ok(1) split: option.splits outcome.splits if_splits)

lemma copy_assign_body_Ok_members:
  assumes "copy_assign_body T h this rhs = Ok (h', v') u"
  shows "size_m rhs \<le> capacity_m (data_m v')"
    and "size_m rhs \<le> capacity_m (data_m this) \<Longrightarrow> v' = this"
  using assms
  by (auto simp: copy_assign_body_def RawMemory_Capacity_def Vector_Swap_def RawMemory_Swap_def
      Vector_copy_Ok_members
      split: if_splits option.splits outcome.splits)

lemma copy_assign_body_Throw_members:
  "copy_assign_body T h this rhs = Throw e (h', v') \<Longrightarrow> v' = this"
  by (auto simp: copy_assign_body_def split: if_splits option.splits outcome.splits)

lemma call_on_members_ok:
  assumes "members_ok w"
    and "\<And>h' v' x. m (heap_w w) (vecs w r) = Ok (h', v') x \<Longrightarrow> size_m v' \<le> capacity_m (data_m v')"
    and "\<And>h' v' e. m (heap_w w) (vecs w r) = Throw e (h', v') \<Longrightarrow> size_m v' \<le> capacity_m (data_m v')"
  shows "(call_on w r m = Ok w' u \<longrightarrow> members_ok w') \<and>
         (call_on w r m = Throw e' w' \<longrightarrow> members_ok w')"
  using assms
  by (auto simp: call_on_def members_ok_def Size_def Capacity_def RawMemory_Capacity_def
      split: if_splits outcome.splits prod.splits)

lemma members_okD: "members_ok w \<Longrightarrow> size_m (vecs w r) \<le> capacity_m (data_m (vecs w r))"
  by (simp add: members_ok_def Size_def Capacity_def RawMemory_Capacity_def)

lemma Reserve_le:
  assumes "size_m this \<le> capacity_m (data_m this)"
  shows "Reserve T h this n = Ok (h', v') u \<Longrightarrow> size_m v' \<le> capacity_m (data_m v')"
    and "Reserve T h this n = Throw e (h', v') \<Longrightarrow> size_m v' \<le> capacity_m (data_m v')"
  using assms Reserve_Ok_members(1,2) [of T h this n h' v' u] Reserve_Throw_members [of T h this n e h' v']
  by auto

lemma Resize_le:
  assumes "size_m this \<le> capacity_m (data_m this)"
  shows "Resize T h this n = Ok (h', v') u \<Longrightarrow> size_m v' \<le> capacity_m (data_m v')"
    and "Resize T h this n = Throw e (h', v') \<Longrightarrow> size_m v' \<le> capacity_m (data_m v')"
  using assms Resize_Ok_members [of T h this n h' v' u] Resize_Throw_members [of T h this n e h' v']
  by auto

lemma EmplaceBack_le:
  assumes "size_m this \<le> capacity_m (data_m this)"
  shows "EmplaceBack T h this arg = Ok (h', v') r \<Longrightarrow> size_m v' \<le> capacity_m (data_m v')"
    and "EmplaceBack T h this arg = Throw e (h', v') \<Longrightarrow> size_m v' \<le> capacity_m (data_m v')"
  using assms EmplaceBack_Ok_members(2) [of T h this arg h' v' r]
    EmplaceBack_Throw_members [of T h this arg e h' v']
  by auto

lemma PopBack_le:
  assumes "size_m this \<le> capacity_m (data_m this)" and "0 < size_m this"
  shows "PopBack T h this = Ok (h', v') u \<Longrightarrow> size_m v' \<le> capacity_m (data_m v')"
  using assms PopBack_Ok_members [of T h this h' v' u] pre_decrement_le [of "size_m this"]
  by auto

lemma Emplace_le:
  assumes "size_m this \<le> capacity_m (data_m this)"
  shows "Emplace T h this pos arg = Ok (h', v') r \<Longrightarrow> size_m v' \<le> capacity_m (data_m v')"
    and "Emplace T h this pos arg = Throw e (h', v') \<Longrightarrow> size_m v' \<le> capacity_m (data_m v')"
  using assms Emplace_Ok_members(2) [of T h this pos arg h' v' r]
    Emplace_Throw_members [of T h this pos arg e h' v']
  by auto

lemma Erase_le:
  assumes "size_m this \<le> capacity_m (data_m this)"
  shows "Erase T h this pos = Ok (h', v') r \<Longrightarrow> size_m v' \<le> capacity_m (data_m v')"
    and "Erase T h this pos = Throw e (h', v') \<Longrightarrow> size_m v' \<le> capacity_m (data_m v')"
  using assms Erase_Ok_members(1) [of T h this pos h' v' r]
    Erase_Throw_members [of T h this pos e h' v']
  by auto

lemma exec_members_ok_aux:
  assumes mo: "members_ok w" and pre: "precondition w c"
  shows "(exec T w c = Ok w' u \<longrightarrow> members_ok w') \<and> (exec T w c = Throw e w' \<longrightarrow> members_ok w')"
proof -
  note ok = members_okD [OF mo]
  show ?thesis
  proof (cases c)
    case (New_default r)
    then show ?thesis using mo
      by (auto simp: construct_on_def members_ok_def Vector_default_def RawMemory_default_def
          Size_def Capacity_def RawMemory_Capacity_def split: if_splits)
  next
    case (New_sized r n)
    then show ?thesis using mo
      by (auto simp: construct_on_def members_ok_def Vector_sized_Ok_members
          Size_def Capacity_def RawMemory_Capacity_def split: if_splits outcome.splits)
  next
    case (New_copy r other)
    then show ?thesis using mo
      by (auto simp: construct_on_def members_ok_def Vector_copy_Ok_members
          Size_def Capacity_def RawMemory_Capacity_def split: if_splits outcome.splits)
  next
    case (New_move r other)
    then show ?thesis using mo
      by (auto simp: members_ok_def Vector_move_def RawMemory_Swap_def RawMemory_default_def
          Size_def Capacity_def RawMemory_Capacity_def split: if_splits)
  next
    case (Delete r)
    then show ?thesis using mo
      by (auto simp: members_ok_def split: if_splits option.splits)
  next
    case (Call_Reserve r n)
    show ?thesis unfolding Call_Reserve exec.simps
      by (rule call_on_members_ok [OF mo]) (auto dest: Reserve_le [OF ok])
  next
    case (Call_Resize r n)
    show ?thesis unfolding Call_Resize exec.simps
      by (rule call_on_members_ok [OF mo]) (auto dest: Resize_le [OF ok])
  next
    case (Call_PushBack r x)
    show ?thesis unfolding Call_PushBack exec.simps PushBack_def
      by (rule call_on_members_ok [OF mo]) (auto dest: EmplaceBack_le [OF ok])
  next
    case (Call_PushBack_rvalue r x)
    show ?thesis unfolding Call_PushBack_rvalue exec.simps PushBack_rvalue_def
      by (rule call_on_members_ok [OF mo]) (auto dest: EmplaceBack_le [OF ok])
  next
    case (Call_EmplaceBack r arg)
    show ?thesis unfolding Call_EmplaceBack exec.simps
      by (rule call_on_members_ok [OF mo]) (auto dest: EmplaceBack_le [OF ok])
  next
    case (Call_PopBack r)
    from pre have "0 < size_m (vecs w r)" by (simp add: Call_PopBack Size_def)
    note le = PopBack_le [OF ok this]
    show ?thesis unfolding Call_PopBack exec.simps
      by (rule call_on_members_ok [OF mo]) (auto dest: le)
  next
    case (Call_Insert r pos x)
    show ?thesis unfolding Call_Insert exec.simps Insert_def
      by (rule call_on_members_ok [OF mo]) (auto dest: Emplace_le [OF ok])
  next
    case (Call_Insert_rvalue r pos x)
    show ?thesis unfolding Call_Insert_rvalue exec.simps Insert_rvalue_def
      by (rule call_on_members_ok [OF mo]) (auto dest: Emplace_le [OF ok])
  next
    case (Call_Emplace r pos arg)
    show ?thesis unfolding Call_Emplace exec.simps
      by (rule call_on_members_ok [OF mo]) (auto dest: Emplace_le [OF ok])
  next
    case (Call_Erase r pos)
    show ?thesis unfolding Call_Erase exec.simps
      by (rule call_on_members_ok [OF mo]) (auto dest: Erase_le [OF ok])
  next
    case (Call_Swap r other)
    then show ?thesis using mo
      by (auto simp: members_ok_def Swap_at_def Vector_Swap_def RawMemory_Swap_def
          Size_def Capacity_def RawMemory_Capacity_def split: if_splits)
  next
    case (Assign_copy r rhs)
    show ?thesis unfolding Assign_copy exec.simps using mo ok [of r] ok [of rhs]
      by (auto simp: members_ok_def copy_assign_at_def Let_def
          Size_def Capacity_def RawMemory_Capacity_def
          split: if_splits outcome.splits prod.splits
          dest: copy_assign_body_Ok_members(1) copy_assign_body_Throw_members)
  next
    case (Assign_move r rhs)
    then show ?thesis using mo
      by (auto simp: members_ok_def move_assign_at_def Swap_at_def Vector_Swap_def RawMemory_Swap_def
          Size_def Capacity_def RawMemory_Capacity_def split: if_splits)
  qed
qed

lemma exec_members_ok:
  assumes "members_ok w" and "precondition w c"
  shows "exec T w c = Ok w' u \<Longrightarrow> members_ok w'"
    and "exec T w c = Throw e w' \<Longrightarrow> members_ok w'"
  using exec_members_ok_aux [OF assms, of T w' u e] by simp_all

lemma run_members_ok:
  "run T w cs = Some w' \<Longrightarrow> in_contract T w cs \<Longrightarrow> members_ok w \<Longrightarrow> members_ok w'"
proof (induction cs arbitrary: w)
  case Nil
  then show ?case by simp
next
  case (Cons c cs)
  from Cons.prems(2) have pre: "precondition w c" by simp
  show ?case
  proof (cases "exec T w c")
    case (Ok w1 u)
    with Cons.prems have "run T w1 cs = Some w'" and "in_contract T w1 cs" by simp_all
    from Cons.IH [OF this exec_members_ok(1) [OF Cons.prems(3) pre Ok]] show ?thesis .
  next
    case (Throw e w1)
    with Cons.prems have "run T w1 cs = Some w'" and "in_contract T w1 cs" by simp_all
    from Cons.IH [OF this exec_members_ok(2) [OF Cons.prems(3) pre Throw]] show ?thesis .
  next
    case Fault
    with Cons.prems show ?thesis by simp
  qed
qed

lemma initial_members_ok: "members_ok (initial_world lim)"
  by (simp add: members_ok_def initial_world_def Vector_default_def RawMemory_default_def
      Size_def Capacity_def RawMemory_Capacity_def)

section \<open>The copy assignment in place\<close>

lemma copy_assign_loop_shape:
  "copy_assign_loop T h d rd k n = Ok h' u \<or> copy_assign_loop T h d rd k n = Throw e h' \<Longrightarrow>
     same_shape h h'"
proof (induction n arbitrary: h k)
  case 0
  then show ?case by auto
next
  case (Suc n)
  from Suc.prems obtain p q where pq: "RawMemory_index d k = Some p" "RawMemory_index rd k = Some q"
    by (auto split: option.splits)
  show ?case
  proof (cases "copy_assign T h p q")
    case (Ok h1 u1)
    with Suc.prems pq have "copy_assign_loop T h1 d rd (Suc k) n = Ok h' u \<or>
      copy_assign_loop T h1 d rd (Suc k) n = Throw e h'" by simp
    from Suc.IH [OF this] copy_assign_Ok(2) [OF Ok] show ?thesis by (rule same_shape_trans [rotated])
  next
    case (Throw e1 h1)
    with Suc.prems pq copy_assign_Throw(1) [OF Throw] show ?thesis by simp
  next
    case Fault
    with Suc.prems pq show ?thesis by simp
  qed
qed

lemma uninitialized_copy_n_shape:
  "uninitialized_copy_n T h (sa, si) n (da, di) = Ok h' u \<or>
   uninitialized_copy_n T h (sa, si) n (da, di) = Throw e h' \<Longrightarrow> same_shape h h'"
  using uninitialized_copy_loop_Ok(1) uninitialized_copy_loop_Throw(1)
  by (auto simp: uninitialized_copy_n_def)

lemma copy_assign_body_in_place:
  assumes le: "size_m rhs \<le> capacity_m (data_m this)"
    and res: "copy_assign_body T h this rhs = Ok (h', v') u \<or>
         copy_assign_body T h this rhs = Throw e (h', v')"
  shows "v' = this" and "same_shape h h'"
proof -
  show "v' = this"
    using assms copy_assign_body_Ok_members(2) copy_assign_body_Throw_members by blast
  show "same_shape h h'"
  proof (cases "size_m rhs < size_m this")
    case True
    let ?loop = "copy_assign_loop T h (data_m this) (data_m rhs) 0 (size_m rhs)"
    show ?thesis
    proof (cases ?loop)
      case (Ok h1 u1)
      with res le True obtain h2 where
        d: "destroy_n h1 (buffer_m (data_m this), size_m rhs) (size_m this - size_m rhs) = Some h2"
        and "h' = h2"
        by (auto simp: copy_assign_body_def RawMemory_Capacity_def GetAddress_def
            split: option.splits)
      with copy_assign_loop_shape [OF disjI1, OF Ok] destroy_n_Some(1) [OF d]
      show ?thesis using same_shape_trans by blast
    next
      case (Throw e1 h1)
      with res le True have "h' = h1"
        by (auto simp: copy_assign_body_def RawMemory_Capacity_def)
      with copy_assign_loop_shape [OF disjI2, OF Throw] show ?thesis by simp
    next
      case Fault
      with res le True show ?thesis
        by (auto simp: copy_assign_body_def RawMemory_Capacity_def)
    qed
  next
    case False
    let ?loop = "copy_assign_loop T h (data_m this) (data_m rhs) 0 (size_m this)"
    show ?thesis
    proof (cases ?loop)
      case (Ok h1 u1)
      with res le False have
        "uninitialized_copy_n T h1 (buffer_m (data_m rhs), size_m this) (size_m rhs - size_m this)
           (buffer_m (data_m this), size_m this) = Ok h' () \<or>
         uninitialized_copy_n T h1 (buffer_m (data_m rhs), size_m this) (size_m rhs - size_m this)
           (buffer_m (data_m this), size_m this) = Throw e h'"
        by (auto simp: copy_assign_body_def RawMemory_Capacity_def GetAddress_def
            split: outcome.splits)
      from copy_assign_loop_shape [OF disjI1, OF Ok] uninitialized_copy_n_shape [OF this]
      show ?thesis by (rule same_shape_trans)
    next
      case (Throw e1 h1)
      with res le False have "h' = h1"
        by (auto simp: copy_assign_body_def RawMemory_Capacity_def)
      with copy_assign_loop_shape [OF disjI2, OF Throw] show ?thesis by simp
    next
      case Fault
      with res le False show ?thesis
        by (auto simp: copy_assign_body_def RawMemory_Capacity_def)
    qed
  qed
qed

section \<open>What EmplaceBack does to the elements\<close>

lemma length_elements [simp]: "length (elements h v) = size_m v"
  by (simp add: elements_def)

lemma nth_elements [simp]:
  "i < size_m v \<Longrightarrow> elements h v ! i = load h (buffer_m (data_m v), i)"
  by (simp add: elements_def Vector_begin_def GetAddress_def)

lemma owns_fresh:
  assumes "heap_ok h" "owns h this"
  shows "buffer_m (data_m this) \<noteq> next_addr h"
  using assms by (auto simp: heap_ok_def owns_def split: if_splits)


lemma adopt_spec:
  assumes "adopt h this nd = Some (h', v')"
  shows "v' = this\<lparr>data_m := nd\<rparr>"
    and "next_addr h' = next_addr h" and "mem_limit h' = mem_limit h"
    and "b \<noteq> buffer_m (data_m this) \<Longrightarrow> load h' (b, j) = load h (b, j)"
    and "b \<noteq> buffer_m (data_m this) \<Longrightarrow> block_len h' b = block_len h b"
    and "block_len h a = None \<Longrightarrow> block_len h' a = None"
proof -
  from assms obtain h1 where d: "destroy_n h (buffer_m (data_m this), 0) (size_m this) = Some h1"
    and r: "RawMemory_dtor h1 (data_m this) = Some h'" and v: "v' = this\<lparr>data_m := nd\<rparr>"
    by (rule adopt_Some)
  note D = destroy_n_Some [OF d]
  note R = RawMemory_dtor_Some [OF r]
  show "v' = this\<lparr>data_m := nd\<rparr>" by (rule v)
  show "next_addr h' = next_addr h" "mem_limit h' = mem_limit h"
    using D(1) R(1,2) by (simp_all add: same_shape_def)
  show "b \<noteq> buffer_m (data_m this) \<Longrightarrow> load h' (b, j) = load h (b, j)"
    by (simp add: R(5) D(3))
  show "b \<noteq> buffer_m (data_m this) \<Longrightarrow> block_len h' b = block_len h b"
    using D(1) by (simp add: R(4) same_shape_def)
  show "block_len h a = None \<Longrightarrow> block_len h' a = None"
    using D(1) by (simp add: R(4) same_shape_def)
qed

lemma capacity_tmp_grows:
  assumes "size_m this < capacity_tmp this"
  shows "capacity_tmp this = max 1 (2 * size_m this)"
proof (cases "size_m this = 0")
  case True
  then show ?thesis by (simp add: capacity_tmp_def)
next
  case False
  have "size_m this * 2 < 2 ^ 64"
  proof (rule ccontr)
    assume "\<not> size_m this * 2 < 2 ^ 64"
    then have ge: "(2::nat) ^ 64 \<le> size_m this * 2" by simp
    have "(size_m this * 2) mod 2 ^ 64 \<le> size_m this * 2 - 2 ^ 64"
      using ge by (metis le_mod_geq mod_less_eq_dividend)
    moreover have "(size_m this * 2) mod 2 ^ 64 < (2::nat) ^ 64" by simp
    ultimately have "(size_m this * 2) mod 2 ^ 64 \<le> size_m this" by linarith
    with assms False show False by (simp add: capacity_tmp_def)
  qed
  with False show ?thesis by (simp add: capacity_tmp_def max_def mult.commute)
qed


lemma heap_ok_shape: "same_shape h h' \<Longrightarrow> heap_ok h \<Longrightarrow> heap_ok h'"
  by (simp add: heap_ok_def same_shape_def)

lemma elements_eqI:
  assumes "length xs = size_m v"
    and "\<And>i. i < size_m v \<Longrightarrow> load h (buffer_m (data_m v), i) = xs ! i"
  shows "elements h v = xs"
  using assms by (intro nth_equalityI) simp_all

lemma owns_live: "owns h this \<Longrightarrow> i < size_m this \<Longrightarrow> load h (buffer_m (data_m this), i) \<noteq> None"
  by (simp add: owns_def)

lemma EmplaceBack_spec_aux:
  assumes ok: "heap_ok h" and ow: "owns h this"
    and res: "EmplaceBack T h this arg = Ok (h', v') r"
  shows "heap_ok h' \<and> owns h' v' \<and> elements h' v' = elements h this @ [arg] \<and>
         arg \<noteq> None \<and> load h' r = arg"
  using res
proof (cases rule: EmplaceBack_Ok_cases)
  case (inplace h1)
  let ?buf = "buffer_m (data_m this)"
  note C = construct_at_Ok [OF inplace(3)]
  note A = appended_OkD [OF inplace(4)]
  have h': "h' = h1" and v': "v' = this\<lparr>size_m := size_m this + 1\<rparr>"
    and r: "r = (?buf, size_m this)" and lt: "size_m this < capacity_m (data_m this)"
    using A by simp_all
  have ld: "load h' (b, j) = (if (b, j) = (?buf, size_m this) then arg else load h (b, j))" for b j
    unfolding h' by (rule C(4))
  have 1: "heap_ok h'" unfolding h' using C(2) ok by (rule heap_ok_shape)
  have arg: "arg \<noteq> None" using C(3) by auto
  have 2: "owns h' v'"
    using ow lt arg C(2) unfolding owns_def v' h'
    by (auto simp: same_shape_def C(4) less_Suc_eq)
  have 3: "elements h' v' = elements h this @ [arg]"
  proof (rule elements_eqI)
    show "length (elements h this @ [arg]) = size_m v'" by (simp add: v')
    fix i assume "i < size_m v'"
    then show "load h' (buffer_m (data_m v'), i) = (elements h this @ [arg]) ! i"
      by (auto simp: v' ld nth_append less_Suc_eq)
  qed
  have 4: "load h' r = arg" by (simp add: r ld)
  from 1 2 3 arg 4 show ?thesis by simp
next
  case (grow h1 nd h2 h3 h4 v4)
  let ?buf = "buffer_m (data_m this)"
  let ?n = "size_m this"
  let ?na = "buffer_m nd"
  note R = RawMemory_ctor_Ok [OF grow(2)]
  note C = construct_at_Ok [OF grow(4)]
  note Tr = transfer_n_Ok [OF grow(5)]
  note Ad = adopt_spec [OF grow(6)]
  note A = appended_OkD [OF grow(7)]
  have arg: "arg \<noteq> None" using C(3) by auto
  have na0: "?na \<noteq> 0" using C(1) by (auto simp: valid_block_len)
  then have cap0: "capacity_tmp this \<noteq> 0" and na: "?na = next_addr h"
    using R(3) by (auto split: if_splits)
  have ne: "?buf \<noteq> ?na" using owns_fresh [OF ok ow] na by simp
  have h': "h' = h4" and v': "v' = this\<lparr>data_m := nd, size_m := ?n + 1\<rparr>"
    and r: "r = (?na, ?n)" and lt: "?n < capacity_m nd"
    using A Ad(1) by simp_all
  have bl1: "block_len h1 = (block_len h)(?na := Some (capacity_m nd))"
    using R(6) R(1) cap0 na by simp
  have bl3: "block_len h3 = block_len h1"
    using C(2) Tr(1) by (simp add: same_shape_def)
  have next3: "next_addr h3 = Suc (next_addr h)"
    using C(2) Tr(1) R(4) cap0 by (simp add: same_shape_def)
  have ld1: "load h1 (b, j) = (if b = ?na then None else load h (b, j))" for b j
    using R(7) [of b j] cap0 na by simp
  have ld_new: "load h' (?na, j) = (if j < ?n then load h (?buf, j) else if j = ?n then arg else None)" for j
    using ne by (simp add: h' Ad(4) Tr(4) C(4) ld1)
  have 1: "heap_ok h'"
    unfolding heap_ok_def h' Ad(2) next3
  proof (intro conjI allI impI)
    show "0 < Suc (next_addr h)" by simp
    fix a assume a: "Suc (next_addr h) \<le> a"
    then have "block_len h a = None" using ok by (simp add: heap_ok_def)
    then have "block_len h3 a = None" using a na by (simp add: bl3 bl1)
    then show "block_len h4 a = None" by (rule Ad(6))
  qed
  have 2: "owns h' v'"
    unfolding owns_def v'
  proof (intro conjI allI impI)
    show "size_m (this\<lparr>data_m := nd, size_m := ?n + 1\<rparr>) \<le>
       capacity_m (data_m (this\<lparr>data_m := nd, size_m := ?n + 1\<rparr>))"
      using lt by simp
    show "if buffer_m (data_m (this\<lparr>data_m := nd, size_m := ?n + 1\<rparr>)) = 0
      then capacity_m (data_m (this\<lparr>data_m := nd, size_m := ?n + 1\<rparr>)) = 0
      else block_len h' (buffer_m (data_m (this\<lparr>data_m := nd, size_m := ?n + 1\<rparr>))) =
           Some (capacity_m (data_m (this\<lparr>data_m := nd, size_m := ?n + 1\<rparr>)))"
      using na0 ne by (simp add: h' Ad(5) bl3 bl1)
    fix i assume "i < size_m (this\<lparr>data_m := nd, size_m := ?n + 1\<rparr>)"
    then show "load h' (buffer_m (data_m (this\<lparr>data_m := nd, size_m := ?n + 1\<rparr>)), i) \<noteq> None"
      using arg owns_live [OF ow, of i] by (auto simp: ld_new)
  qed
  have 3: "elements h' v' = elements h this @ [arg]"
  proof (rule elements_eqI)
    show "length (elements h this @ [arg]) = size_m v'" by (simp add: v')
    fix i assume "i < size_m v'"
    then show "load h' (buffer_m (data_m v'), i) = (elements h this @ [arg]) ! i"
      by (auto simp: v' ld_new nth_append less_Suc_eq)
  qed
  have 4: "load h' r = arg" by (simp add: r ld_new)
  from 1 2 3 arg 4 show ?thesis by simp
qed

lemma EmplaceBack_spec:
  assumes "heap_ok h" and "owns h this" and "EmplaceBack T h this arg = Ok (h', v') r"
  shows "heap_ok h'" and "owns h' v'" and "elements h' v' = elements h this @ [arg]"
    and "arg \<noteq> None" and "load h' r = arg"
  using EmplaceBack_spec_aux [OF assms] by simp_all



section \<open>Exceptions during growth\<close>

lemma RawMemory_dtor_live:
  "buffer_m d = 0 \<or> block_len h (buffer_m d) \<noteq> None \<Longrightarrow> \<exists>h'. RawMemory_dtor h d = Some h'"
  by (auto simp: RawMemory_dtor_def Deallocate_def operator_delete_def block_len_def
      split: option.splits)

lemma construct_at_Throw_valid: "construct_at h p arg = Throw e h' \<Longrightarrow> valid h p"
  by (auto simp: construct_at_def split: if_splits)

text \<open>
  A block is allocated for \<open>new_data\<close>, something is written into it only, and it is
  released again: the vector is as it was.
\<close>

lemma released_unchanged:
  assumes ok: "heap_ok h" and ow: "owns h this"
    and ctor: "RawMemory_ctor h n = Ok h1 nd" and n: "n \<noteq> 0"
    and shape: "same_shape h1 h2"
    and frame: "\<And>b i. b \<noteq> buffer_m nd \<Longrightarrow> load h2 (b, i) = load h1 (b, i)"
    and dtor: "RawMemory_dtor h2 nd = Some h'"
  shows "heap_ok h'" and "owns h' this" and "elements h' this = elements h this"
    and "block_len h' = block_len h" and "mem_limit h' = mem_limit h"
proof -
  let ?buf = "buffer_m (data_m this)"
  note R = RawMemory_ctor_Ok [OF ctor]
  note D = RawMemory_dtor_Some [OF dtor]
  have na: "buffer_m nd = next_addr h" using R(3) n by simp
  have na0: "buffer_m nd \<noteq> 0" using na ok by (simp add: heap_ok_def)
  have ne: "?buf \<noteq> buffer_m nd" using owns_fresh [OF ok ow] na by simp
  have bl2: "block_len h2 = (block_len h)(next_addr h := Some n)"
    using shape R(6) n by (simp add: same_shape_def)
  have "block_len h (next_addr h) = None" using ok by (simp add: heap_ok_def)
  then show bl: "block_len h' = block_len h"
    using na0 na by (simp add: D(4) bl2 fun_eq_iff)
  show "mem_limit h' = mem_limit h" using D(2) shape R(5) by (simp add: same_shape_def)
  have next': "next_addr h' = Suc (next_addr h)"
    using D(1) shape R(4) n by (simp add: same_shape_def)
  show "heap_ok h'" using ok by (simp add: heap_ok_def bl next')
  have ld: "load h' (?buf, i) = load h (?buf, i)" for i
    using ne na n by (simp add: D(5) frame R(7))
  show "owns h' this" using ow by (simp add: owns_def bl ld)
  show "elements h' this = elements h this"
    by (rule elements_eqI) (simp_all add: ld)
qed

lemma Reserve_Throw_unchanged:
  assumes copy: "\<not> is_nothrow_move_constructible T" "is_copy_constructible T"
    and ok: "heap_ok h" and ow: "owns h this"
    and res: "Reserve T h this n = Throw e (h', v')"
  shows "v' = this \<and> heap_ok h' \<and> owns h' this \<and> elements h' this = elements h this"
  using res
proof (cases rule: Reserve_Throw_cases)
  case alloc
  then show ?thesis using ok ow RawMemory_ctor_Throw(1) [OF alloc(2)] by simp
next
  case (transfer h1 nd h2)
  note Tr = transfer_n_Throw [OF transfer(3)]
  have n: "n \<noteq> 0" using transfer(1) by simp
  from released_unchanged(1,2,3) [OF ok ow transfer(2) n Tr(1) Tr(3) [OF copy] transfer(4)]
    transfer(5)
  show ?thesis by simp
qed

lemma EmplaceBack_Throw_unchanged:
  assumes copy: "\<not> is_nothrow_move_constructible T" "is_copy_constructible T"
    and ok: "heap_ok h" and ow: "owns h this"
    and res: "EmplaceBack T h this arg = Throw e (h', v')"
  shows "v' = this \<and> heap_ok h' \<and> owns h' this \<and> elements h' this = elements h this"
  using res
proof (cases rule: EmplaceBack_Throw_cases)
  case inplace
  then show ?thesis using ok ow construct_at_Throw(1) [OF inplace(2)] by simp
next
  case alloc
  then show ?thesis using ok ow RawMemory_ctor_Throw(1) [OF alloc(2)] by simp
next
  case (ctor h1 nd h2)
  have "valid h1 (buffer_m nd, size_m this)" using ctor(3) by (rule construct_at_Throw_valid)
  then have n: "capacity_tmp this \<noteq> 0"
    using RawMemory_ctor_Ok(3) [OF ctor(2)] by (auto simp: valid_block_len split: if_splits)
  have h2: "h2 = h1" using construct_at_Throw(1) [OF ctor(3)] .
  from released_unchanged(1,2,3) [OF ok ow ctor(2) n, of h2 h'] h2 ctor(4,5)
  show ?thesis by simp
next
  case (transfer h1 nd h2 h3)
  note C = construct_at_Ok [OF transfer(3)]
  note Tr = transfer_n_Throw [OF transfer(4)]
  have n: "capacity_tmp this \<noteq> 0"
    using C(1) RawMemory_ctor_Ok(3) [OF transfer(2)] by (auto simp: valid_block_len split: if_splits)
  have shape: "same_shape h1 h3" using C(2) Tr(1) by (rule same_shape_trans)
  have frame: "load h3 (b, i) = load h1 (b, i)" if "b \<noteq> buffer_m nd" for b i
    using that by (simp add: Tr(3) [OF copy] C(4))
  from released_unchanged(1,2,3) [OF ok ow transfer(2) n shape frame transfer(5)] transfer(6)
  show ?thesis by simp
qed

lemma Reserve_propagates:
  assumes ok: "heap_ok h"
    and lt: "capacity_m (data_m this) < n"
    and ctor: "RawMemory_ctor h n = Ok h1 nd"
    and tr: "transfer_n T h1 (GetAddress (data_m this)) (size_m this) (GetAddress nd) = Throw e h2"
  shows "\<exists>h'. Reserve T h this n = Throw e (h', this)"
proof -
  note R = RawMemory_ctor_Ok [OF ctor]
  have n: "n \<noteq> 0" using lt by simp
  have "block_len h2 (buffer_m nd) \<noteq> None"
    using transfer_n_Throw(1) [OF tr [unfolded GetAddress_def]] R(3,6) n
    by (simp add: same_shape_def)
  then obtain h' where "RawMemory_dtor h2 nd = Some h'" using RawMemory_dtor_live by blast
  then show ?thesis using lt ctor tr
    by (simp add: Reserve_def RawMemory_Capacity_def unwind_def)
qed

lemma EmplaceBack_propagates:
  assumes eq: "size_m this = capacity_m (data_m this)"
    and ctor: "RawMemory_ctor h (capacity_tmp this) = Ok h1 nd"
    and new: "construct_at h1 (buffer_m nd, size_m this) arg = Ok h2 u"
    and tr: "transfer_n T h2 (GetAddress (data_m this)) (size_m this) (GetAddress nd) = Throw e h3"
  shows "\<exists>h'. EmplaceBack T h this arg = Throw e (h', this)"
proof -
  note R = RawMemory_ctor_Ok [OF ctor]
  note C = construct_at_Ok [OF new]
  have v: "buffer_m nd \<noteq> 0" "size_m this < capacity_m nd" "block_len h1 (buffer_m nd) \<noteq> None"
    using C(1) R(1,3,6) by (auto simp: valid_block_len split: if_splits option.splits)
  have "block_len h3 (buffer_m nd) \<noteq> None"
    using transfer_n_Throw(1) [OF tr [unfolded GetAddress_def]] C(2) v(3)
    by (simp add: same_shape_def)
  then obtain h' where "RawMemory_dtor h3 nd = Some h'" using RawMemory_dtor_live by blast
  then show ?thesis using eq ctor new tr v(2)
    by (cases u) (simp add: EmplaceBack_def Capacity_def RawMemory_Capacity_def unwind_def
        RawMemory_plus_def)
qed

section \<open>What Emplace and Erase do to the elements\<close>









section \<open>Evaluating the model\<close>

lemma replicate_numeral: "replicate (numeral k) x = x # replicate (pred_numeral k) x"
  by (simp add: numeral_eq_Suc)

lemmas model_defs = 
  operator_new_def operator_delete_def Allocate_def Deallocate_def RawMemory_ctor_def RawMemory_dtor_def
  RawMemory_plus_def RawMemory_index_def RawMemory_Swap_def GetAddress_def RawMemory_Capacity_def RawMemory_default_def
  copy_ctor_def move_ctor_def construct_at_def destroy_at_def copy_construct_def move_construct_def
  move_assign_value_def copy_assign_def move_assign_def
  uninitialized_copy_n_def uninitialized_move_n_def uninitialized_value_construct_n_def std_move_def std_move_backward_def
  Vector_default_def Size_def Capacity_def transfer_n_def Vector_sized_def uninitialized_move_n_const_def Vector_copy_def
  Vector_Swap_def Vector_move_def Vector_dtor_def adopt_def unwind_def Reserve_def Resize_shrink_def Resize_def
  appended_def capacity_tmp_def EmplaceBack_def PushBack_def PushBack_rvalue_def
  pre_decrement_def destroy_n_at_def PopBack_def Emplace_def Erase_def Insert_def Insert_rvalue_def
  Vector_index_def Vector_begin_def Vector_end_def elements_def
  initial_world_def empty_heap_def Swap_at_def move_assign_at_def copy_assign_body_def copy_assign_at_def call_on_def construct_on_def
  valid.simps load.simps store.simps

lemmas demo_defs = demo_world_def demo_heap_def demo_a_def demo_b_def demo_program_def int_type_def throwing_type_def

lemma demo_world_built: "run int_type (initial_world 100) demo_program = Some demo_world"
  by (simp add: demo_defs model_defs Let_def fun_eq_iff replicate_numeral insert_commute)

lemma throwing_world_built:
  "run throwing_type (initial_world 100) throwing_program = Some throwing_world"
  by (simp add: throwing_program_def throwing_world_def throwing_type_def model_defs
      fun_eq_iff replicate_numeral)

lemma demo_program_in_contract: "in_contract int_type (initial_world 100) demo_program"
  by (simp add: demo_defs model_defs Let_def fun_eq_iff replicate_numeral insert_commute)

lemma throwing_program_in_contract:
  "in_contract throwing_type (initial_world 100) throwing_program"
  by (simp add: throwing_program_def throwing_type_def model_defs fun_eq_iff replicate_numeral)



section \<open>Claims about RawMemory\<close>

text \<open>
  C5. The claim: after \<open>a = move(b)\<close> on distinct objects, \<open>a\<close> owns \<open>b\<close>'s block, \<open>b\<close>
  is left with a null buffer and capacity zero, and no two objects own the same block.
  The code does not do that. At \<^verbatim>\<open>RawMemory<T> a; RawMemory<T> b(2); a = std::move(b);\<close>
  the assignment copies \<open>b\<close>'s buffer pointer and capacity into \<open>a\<close> and writes nothing
  to \<open>b\<close>: both objects then hold the same non-null buffer with capacity 2, and running
  the destructor of \<open>a\<close> and then that of \<open>b\<close> frees the block twice.
\<close>

theorem RawMemory_move_assign_leaves_source_owning:
  "(let st = RawMemory_move_assign two_raw 0 1 in
      buffer_m (st 0) = 1 \<and> capacity_m (st 0) = 2 \<and>
      buffer_m (st 1) = 1 \<and> capacity_m (st 1) = 2 \<and>
      (case RawMemory_dtor heap_two_raw (st 0) of
         Some h' \<Rightarrow> RawMemory_dtor h' (st 1) = None
       | None \<Rightarrow> False))"
  by (simp add: RawMemory_move_assign_def two_raw_def heap_two_raw_def RawMemory_dtor_def
      Deallocate_def operator_delete_def RawMemory_default_def Let_def)

section \<open>Claims about construction and assignment\<close>

text \<open>
  C9. After the move construction \<^verbatim>\<open>Vector b(std::move(a))\<close> the source \<open>a\<close> equals a
  default-constructed vector: its size is 0, its capacity is 0 and its buffer is null.
  The new object \<open>b\<close> has the members \<open>a\<close> had, and the heap is untouched.
\<close>

theorem move_ctor_leaves_default:
  "exec T w (New_move b a) = Ok w' u \<Longrightarrow>
     vecs w' a = Vector_default \<and> Size (vecs w' a) = 0 \<and> Capacity (vecs w' a) = 0 \<and>
     buffer_m (data_m (vecs w' a)) = 0 \<and>
     vecs w' b = vecs w a \<and> heap_w w' = heap_w w"
  by (auto simp: Vector_move_def RawMemory_Swap_def Vector_default_def RawMemory_default_def
      Size_def Capacity_def RawMemory_Capacity_def split: if_splits)

theorem move_ctor_leaves_default_witness:
  "exec int_type demo_world (New_move 2 0) =
     Ok (demo_world\<lparr>vecs := (vecs demo_world)(0 := Vector_default, 2 := demo_a),
                     live := {0, 1, 2}\<rparr>) () \<and>
   vecs (demo_world\<lparr>vecs := (vecs demo_world)(0 := Vector_default, 2 := demo_a),
                     live := {0, 1, 2}\<rparr>) 0 = Vector_default \<and>
   Capacity (vecs (demo_world\<lparr>vecs := (vecs demo_world)(0 := Vector_default, 2 := demo_a),
                     live := {0, 1, 2}\<rparr>) 0) = 0"
proof -
  have e: "exec int_type demo_world (New_move 2 0) =
     Ok (demo_world\<lparr>vecs := (vecs demo_world)(0 := Vector_default, 2 := demo_a),
                     live := {0, 1, 2}\<rparr>) ()"
    by (simp add: demo_defs model_defs fun_eq_iff insert_commute)
  from move_ctor_leaves_default [OF e] e show ?thesis by simp
qed

text \<open>
  C7. For two distinct vectors \<open>a\<close> and \<open>b\<close>, after the move assignment
  \<^verbatim>\<open>a = std::move(b)\<close> the object \<open>a\<close> has the members, hence the size and the elements,
  that \<open>b\<close> had, and \<open>b\<close> has those that \<open>a\<close> had; the heap is untouched.
\<close>

theorem move_assign_swaps:
  "a \<noteq> b \<Longrightarrow>
     vecs (move_assign_at w a b) a = vecs w b \<and> vecs (move_assign_at w a b) b = vecs w a \<and>
     heap_w (move_assign_at w a b) = heap_w w \<and>
     Size (vecs (move_assign_at w a b) a) = Size (vecs w b) \<and>
     Size (vecs (move_assign_at w a b) b) = Size (vecs w a) \<and>
     elements (heap_w (move_assign_at w a b)) (vecs (move_assign_at w a b) a) =
       elements (heap_w w) (vecs w b) \<and>
     elements (heap_w (move_assign_at w a b)) (vecs (move_assign_at w a b) b) =
       elements (heap_w w) (vecs w a)"
  by (simp add: move_assign_at_def Swap_at_def Vector_Swap_def RawMemory_Swap_def)

theorem move_assign_swaps_witness:
  "(0::nat) \<noteq> 1 \<and>
   elements (heap_w (move_assign_at demo_world 0 1)) (vecs (move_assign_at demo_world 0 1) 0) =
     [Some 7] \<and>
   elements (heap_w (move_assign_at demo_world 0 1)) (vecs (move_assign_at demo_world 0 1) 1) =
     [Some 10, Some 20]"
proof -
  have "elements (heap_w demo_world) (vecs demo_world 1) = [Some 7]"
    "elements (heap_w demo_world) (vecs demo_world 0) = [Some 10, Some 20]"
    by (simp_all add: demo_defs model_defs upt_rec)
  with move_assign_swaps [of 0 1 demo_world] show ?thesis by simp
qed

text \<open>
  C8. The copy assignment of a vector to itself, \<^verbatim>\<open>v = v\<close>, returns and changes nothing:
  the heap and every object, so the size, the capacity and the elements of \<open>v\<close>, are as
  before.
\<close>

theorem copy_self_assign_identity: "copy_assign_at T w v v = Ok w ()"
  by (simp add: copy_assign_at_def)

section \<open>Claims about the invariant\<close>

text \<open>
  C1. The claim: every state that a sequence of public operations reaches has
  \<open>Size() \<le> Capacity()\<close>. The source does not guard \<open>PopBack\<close>: on an empty
  \<^verbatim>\<open>Vector<int>\<close> the call returns and leaves the size \<open>2 ^ 64 - 1\<close> with the capacity 0.
  What holds: in every state that a sequence of public operations reaches from the
  empty store (constructions, destructions, \<open>Reserve\<close>, \<open>Resize\<close>, \<open>PushBack\<close>,
  \<open>EmplaceBack\<close>, \<open>PopBack\<close>, \<open>Insert\<close>, \<open>Emplace\<close>, \<open>Erase\<close>, \<open>Swap\<close>, copy and move
  assignment, each returning or throwing), every vector has \<open>Size() \<le> Capacity()\<close>,
  provided that every call is made within its precondition: \<open>PopBack\<close> on a vector that
  is not empty, and no call with undefined behaviour (an iterator out of range, an
  object used outside its lifetime).
\<close>

theorem size_le_capacity_reachable:
  "run T (initial_world lim) cs = Some w \<Longrightarrow> in_contract T (initial_world lim) cs \<Longrightarrow>
     Size (vecs w r) \<le> Capacity (vecs w r)"
  using run_members_ok [OF _ _ initial_members_ok, of T lim cs w] by (simp add: members_ok_def)

theorem size_le_capacity_reachable_witness:
  "run int_type (initial_world 100) demo_program = Some demo_world \<and>
   in_contract int_type (initial_world 100) demo_program \<and>
   Size (vecs demo_world 0) \<le> Capacity (vecs demo_world 0) \<and>
   Size (vecs demo_world 0) = 2 \<and> Capacity (vecs demo_world 0) = 4 \<and>
   run throwing_type (initial_world 100) throwing_program = Some throwing_world \<and>
   in_contract throwing_type (initial_world 100) throwing_program \<and>
   Size (vecs throwing_world 0) \<le> Capacity (vecs throwing_world 0)"
  using size_le_capacity_reachable [OF demo_world_built demo_program_in_contract, of 0]
    size_le_capacity_reachable [OF throwing_world_built throwing_program_in_contract, of 0]
    demo_world_built demo_program_in_contract throwing_world_built throwing_program_in_contract
  by (simp add: demo_defs Size_def Capacity_def RawMemory_Capacity_def)

text \<open>
  A program outside the contract: \<^verbatim>\<open>Vector<int> v; v.PopBack();\<close> returns, and the size
  of \<open>v\<close> exceeds its capacity.
\<close>

theorem PopBack_empty_size_exceeds_capacity:
  "run int_type (initial_world 100) pop_empty_program = Some pop_empty_world \<and>
   Size (vecs pop_empty_world 0) = 18446744073709551615 \<and>
   Capacity (vecs pop_empty_world 0) = 0 \<and>
   \<not> Size (vecs pop_empty_world 0) \<le> Capacity (vecs pop_empty_world 0)"
  by (simp add: pop_empty_program_def pop_empty_world_def int_type_def model_defs fun_eq_iff)

text \<open>
  C10. A copy assignment \<^verbatim>\<open>v = w\<close> between distinct objects with
  \<open>w.Size() \<le> v.Capacity()\<close> leaves the capacity and the buffer of \<open>v\<close> as they
  were and neither allocates nor frees a block, whether it returns or an element
  operation throws; when it returns, \<open>v\<close> has the size of \<open>w\<close>.
\<close>

theorem copy_assign_keeps_capacity:
  assumes "a \<noteq> b" and "Size (vecs w b) \<le> Capacity (vecs w a)"
    and "copy_assign_at T w a b = Ok w' u \<or> copy_assign_at T w a b = Throw e w'"
  shows "Capacity (vecs w' a) = Capacity (vecs w a) \<and>
     buffer_m (data_m (vecs w' a)) = buffer_m (data_m (vecs w a)) \<and>
     same_shape (heap_w w) (heap_w w') \<and>
     (copy_assign_at T w a b = Ok w' u \<longrightarrow> Size (vecs w' a) = Size (vecs w b))"
proof -
  from assms(1,3) obtain h1 v1 where
    body: "copy_assign_body T (heap_w w) (vecs w a) (vecs w b) = Ok (h1, v1) () \<or>
           copy_assign_body T (heap_w w) (vecs w a) (vecs w b) = Throw e (h1, v1)"
    and w': "heap_w w' = h1" "data_m (vecs w' a) = data_m v1"
      "copy_assign_at T w a b = Ok w' u \<longrightarrow> size_m (vecs w' a) = size_m (vecs w b)"
    by (auto simp: copy_assign_at_def Let_def split: outcome.splits prod.splits)
  from assms(2) have le: "size_m (vecs w b) \<le> capacity_m (data_m (vecs w a))"
    by (simp add: Size_def Capacity_def RawMemory_Capacity_def)
  from copy_assign_body_in_place [OF le body] w'
  show ?thesis by (simp add: Size_def Capacity_def RawMemory_Capacity_def)
qed


theorem copy_assign_keeps_capacity_witness:
  "(0::nat) \<noteq> 1 \<and> Size (vecs demo_world 1) \<le> Capacity (vecs demo_world 0) \<and>
   copy_assign_at int_type demo_world 0 1 = Ok demo_assigned () \<and>
   Capacity (vecs demo_assigned 0) = 4 \<and> Capacity (vecs demo_world 0) = 4 \<and>
   buffer_m (data_m (vecs demo_assigned 0)) = 1 \<and>
   elements (heap_w demo_assigned) (vecs demo_assigned 0) = [Some 7]"
proof -
  have e: "copy_assign_at int_type demo_world 0 1 = Ok demo_assigned ()"
    by (simp add: demo_defs demo_assigned_def model_defs fun_eq_iff)
  have l: "Size (vecs demo_world 1) \<le> Capacity (vecs demo_world 0)"
    by (simp add: demo_defs Size_def Capacity_def RawMemory_Capacity_def)
  have "(0::nat) \<noteq> 1" by simp
  from copy_assign_keeps_capacity [OF this l disjI1, OF e] e l
  show ?thesis
    by (simp add: demo_defs demo_assigned_def model_defs upt_rec)
qed

section \<open>Claims about appending\<close>



text \<open>
  C3. When \<open>EmplaceBack\<close> or \<open>PushBack\<close> returns, the size has grown by one; the
  capacity is \<open>max 1 (2 * capacity)\<close> if the vector was full and unchanged otherwise;
  the reference returned is \<^verbatim>\<open>data_[size_ - 1]\<close>, the last index, and for a vector that
  owns its storage the object there is the one constructed from the arguments, after
  the elements the vector had.
\<close>

theorem EmplaceBack_postcondition:
  assumes "call = EmplaceBack T h this arg \<or>
           call = PushBack T h this x \<and> arg = copy_ctor T x \<or>
           call = PushBack_rvalue T h this x \<and> arg = move_ctor T x"
    and "call = Ok (h', v') r"
  shows "Size v' = Size this + 1 \<and>
     (Size this = Capacity this \<longrightarrow> Capacity v' = max 1 (2 * Capacity this)) \<and>
     (Size this \<noteq> Capacity this \<longrightarrow> Capacity v' = Capacity this) \<and>
     r = (buffer_m (data_m v'), Size v' - 1) \<and> Vector_index v' (Size v' - 1) = Some r \<and>
     (heap_ok h \<and> owns h this \<longrightarrow>
        load h' r = arg \<and> arg \<noteq> None \<and> elements h' v' = elements h this @ [arg])"
proof -
  from assms have res: "EmplaceBack T h this arg = Ok (h', v') r"
    by (auto simp: PushBack_def PushBack_rvalue_def)
  note M = EmplaceBack_Ok_members [OF res]
  have cap: "capacity_m (data_m v') = max 1 (2 * capacity_m (data_m this))"
    if eq: "size_m this = capacity_m (data_m this)"
  proof -
    have "size_m this < capacity_tmp this" using M(1,2) M(5) [OF eq] by simp
    from capacity_tmp_grows [OF this] M(5) [OF eq] eq show ?thesis by simp
  qed
  have idx: "Vector_index v' (size_m v' - 1) = Some r"
    using M(1,2,3) by (simp add: Vector_index_def RawMemory_index_def)
  have "load h' r = arg \<and> arg \<noteq> None \<and> elements h' v' = elements h this @ [arg]"
    if "heap_ok h" "owns h this"
    using EmplaceBack_spec [OF that res] by simp
  with M cap idx show ?thesis
    by (simp add: Size_def Capacity_def RawMemory_Capacity_def)
qed

theorem EmplaceBack_postcondition_witness:
  "PushBack int_type demo_heap demo_b 8 = Ok (heap_pushed, vector_pushed) (3, 1) \<and>
   heap_ok demo_heap \<and> owns demo_heap demo_b \<and>
   Size demo_b = Capacity demo_b \<and> Size vector_pushed = 2 \<and> Capacity vector_pushed = 2 \<and>
   load heap_pushed (3, 1) = Some 8 \<and>
   elements heap_pushed vector_pushed = [Some 7, Some 8]"
proof -
  have e: "PushBack int_type demo_heap demo_b 8 = Ok (heap_pushed, vector_pushed) (3, 1)"
    by (simp add: heap_pushed_def vector_pushed_def demo_defs model_defs fun_eq_iff)
  have ok: "heap_ok demo_heap" "owns demo_heap demo_b"
    by (simp_all add: heap_ok_def owns_def demo_defs block_len_def load.simps)
  have el: "elements demo_heap demo_b = [Some 7]"
    by (simp add: demo_defs model_defs upt_rec)
  from EmplaceBack_postcondition
    [of "PushBack int_type demo_heap demo_b 8" int_type demo_heap demo_b "copy_ctor int_type 8" 8
      heap_pushed vector_pushed "(3, 1)"] e ok el
  show ?thesis
    by (simp add: copy_ctor_def int_type_def Size_def Capacity_def RawMemory_Capacity_def
        demo_b_def vector_pushed_def)
qed

section \<open>Claims about exceptions\<close>

text \<open>
  C4. Let the move constructor of \<open>T\<close> be potentially throwing and \<open>T\<close> be copy
  constructible, so that growth copies. Whenever \<open>Reserve\<close>, \<open>EmplaceBack\<close> or
  \<open>PushBack\<close> leaves by an exception, the vector has the members it had (size, capacity,
  buffer) and the same elements. And when the copy of the elements into the new block
  throws, in \<open>Reserve\<close> or in a reallocating \<open>EmplaceBack\<close>, the method does leave by
  that exception, with the vector unchanged.
\<close>

theorem growth_strong_guarantee:
  assumes "\<not> is_nothrow_move_constructible T" and "is_copy_constructible T"
    and "heap_ok h" and "owns h this"
  shows "(Reserve T h this n = Throw e (h', v') \<or> EmplaceBack T h this arg = Throw e (h', v') \<or>
          PushBack T h this x = Throw e (h', v') \<or> PushBack_rvalue T h this x = Throw e (h', v') \<longrightarrow>
            v' = this \<and> Size v' = Size this \<and> Capacity v' = Capacity this \<and>
            elements h' v' = elements h this \<and> owns h' v' \<and> heap_ok h') \<and>
         (Capacity this < n \<and> RawMemory_ctor h n = Ok h1 nd \<and>
          uninitialized_copy_n T h1 (GetAddress (data_m this)) (Size this) (GetAddress nd) =
            Throw e h2 \<longrightarrow>
            (\<exists>h'. Reserve T h this n = Throw e (h', this) \<and>
                  elements h' this = elements h this)) \<and>
         (Size this = Capacity this \<and> RawMemory_ctor h (capacity_tmp this) = Ok h1 nd \<and>
          construct_at h1 (buffer_m nd, Size this) arg = Ok h2 u \<and>
          uninitialized_copy_n T h2 (GetAddress (data_m this)) (Size this) (GetAddress nd) =
            Throw e h3 \<longrightarrow>
            (\<exists>h'. EmplaceBack T h this arg = Throw e (h', this) \<and>
                  elements h' this = elements h this))"
proof (intro conjI impI)
  assume "Reserve T h this n = Throw e (h', v') \<or> EmplaceBack T h this arg = Throw e (h', v') \<or>
          PushBack T h this x = Throw e (h', v') \<or> PushBack_rvalue T h this x = Throw e (h', v')"
  then have "v' = this \<and> heap_ok h' \<and> owns h' this \<and> elements h' this = elements h this"
    using Reserve_Throw_unchanged [OF assms] EmplaceBack_Throw_unchanged [OF assms]
    unfolding PushBack_def PushBack_rvalue_def by blast
  then show "v' = this" "Size v' = Size this" "Capacity v' = Capacity this"
    "elements h' v' = elements h this" "owns h' v'" "heap_ok h'"
    by simp_all
next
  assume a: "Capacity this < n \<and> RawMemory_ctor h n = Ok h1 nd \<and>
          uninitialized_copy_n T h1 (GetAddress (data_m this)) (Size this) (GetAddress nd) =
            Throw e h2"
  then have tr: "transfer_n T h1 (GetAddress (data_m this)) (size_m this) (GetAddress nd) = Throw e h2"
    using assms(1,2) by (simp add: transfer_n_def Size_def)
  from a have "capacity_m (data_m this) < n" by (simp add: Capacity_def RawMemory_Capacity_def)
  from Reserve_propagates [OF assms(3) this _ tr] a
  obtain h' where r: "Reserve T h this n = Throw e (h', this)" by blast
  from Reserve_Throw_unchanged [OF assms r] r
  show "\<exists>h'. Reserve T h this n = Throw e (h', this) \<and> elements h' this = elements h this"
    by blast
next
  assume a: "Size this = Capacity this \<and> RawMemory_ctor h (capacity_tmp this) = Ok h1 nd \<and>
          construct_at h1 (buffer_m nd, Size this) arg = Ok h2 u \<and>
          uninitialized_copy_n T h2 (GetAddress (data_m this)) (Size this) (GetAddress nd) =
            Throw e h3"
  then have "uninitialized_copy_n T h2 (GetAddress (data_m this)) (size_m this) (GetAddress nd) =
      Throw e h3"
    unfolding Size_def by blast
  then have tr: "transfer_n T h2 (GetAddress (data_m this)) (size_m this) (GetAddress nd) = Throw e h3"
    using assms(1,2) by (simp add: transfer_n_def)
  from a have "size_m this = capacity_m (data_m this)"
    and "construct_at h1 (buffer_m nd, size_m this) arg = Ok h2 u"
    unfolding Size_def Capacity_def RawMemory_Capacity_def by blast+
  from EmplaceBack_propagates [OF this(1) _ this(2) tr] a
  obtain h' where r: "EmplaceBack T h this arg = Throw e (h', this)" by blast
  from EmplaceBack_Throw_unchanged [OF assms r] r
  show "\<exists>h'. EmplaceBack T h this arg = Throw e (h', this) \<and> elements h' this = elements h this"
    by blast
qed

theorem growth_strong_guarantee_witness:
  "\<not> is_nothrow_move_constructible throwing_type \<and> is_copy_constructible throwing_type \<and>
   heap_ok heap_13 \<and> owns heap_13 vector_13 \<and>
   Reserve throwing_type heap_13 vector_13 4 = Throw T_exception (heap_13\<lparr>next_addr := 3\<rparr>, vector_13) \<and>
   EmplaceBack throwing_type heap_13 vector_13 (Some 5) =
     Throw T_exception (heap_13\<lparr>next_addr := 3\<rparr>, vector_13) \<and>
   elements (heap_13\<lparr>next_addr := 3\<rparr>) vector_13 = [Some 13] \<and>
   elements heap_13 vector_13 = [Some 13]"
proof -
  have f: "\<not> is_nothrow_move_constructible throwing_type" "is_copy_constructible throwing_type"
    by (simp_all add: throwing_type_def)
  have ok: "heap_ok heap_13" "owns heap_13 vector_13"
    by (simp_all add: heap_ok_def owns_def heap_13_def vector_13_def block_len_def load.simps)
  have r: "Reserve throwing_type heap_13 vector_13 4 =
      Throw T_exception (heap_13\<lparr>next_addr := 3\<rparr>, vector_13)"
    by (simp add: heap_13_def vector_13_def throwing_type_def model_defs fun_eq_iff
        replicate_numeral)
  have e: "EmplaceBack throwing_type heap_13 vector_13 (Some 5) =
      Throw T_exception (heap_13\<lparr>next_addr := 3\<rparr>, vector_13)"
    by (simp add: heap_13_def vector_13_def throwing_type_def model_defs fun_eq_iff
        replicate_numeral)
  have el: "elements heap_13 vector_13 = [Some 13]"
    by (simp add: heap_13_def vector_13_def model_defs)
  from growth_strong_guarantee [OF f ok, of 4 T_exception "heap_13\<lparr>next_addr := 3\<rparr>" vector_13]
    f ok r e el
  show ?thesis by simp
qed

section \<open>Claims about insertion and erasure\<close>



end
